theory Spec2Isabelle
  imports Main "HOL-Library.Word"
begin

unbundle bit_operations_syntax

section \<open>Server: the message table (server/database.ts)\<close>

text \<open>
  A row of the \<open>Message\<close> table, with the columns the message operations read or write.
  \<open>status\<close> is a TEXT column and \<open>updateMessageStatus\<close> takes \<open>status: string\<close>, so it is
  a string here too. Dates are milliseconds, and the \<open>new Date()\<close> of an operation is its
  argument \<open>now\<close>. The table is keyed by the primary key \<open>id\<close>.
\<close>

record message =
  chatId :: string
  senderId :: string
  recipientId :: "string option"
  ciphertext :: string
  iv :: string
  status :: string
  deliveredAt :: "nat option"
  readAt :: "nat option"
  isEdited :: bool
  editedAt :: "nat option"
  isDeleted :: bool
  deletedAt :: "nat option"

type_synonym message_table = "string \<rightharpoonup> message"

text \<open>The position of a status in the order sending, sent, delivered, read.\<close>

definition status_rank :: "string \<Rightarrow> nat option" where
  "status_rank s =
     (if s = ''sending'' then Some 0
      else if s = ''sent'' then Some 1
      else if s = ''delivered'' then Some 2
      else if s = ''read'' then Some 3
      else None)"

definition status_before :: "string \<Rightarrow> string \<Rightarrow> bool" where
  "status_before a b =
     (case (status_rank a, status_rank b) of (Some i, Some j) \<Rightarrow> i < j | _ \<Rightarrow> False)"

text \<open>
  \<open>updateMessageStatus\<close>: the update data is the new status, with \<open>deliveredAt\<close> for
  "delivered", and \<open>readAt\<close> and \<open>deliveredAt\<close> for "read"; \<open>updateMany\<close> writes it to the
  rows with this id and this recipient, and returns their count. The \<open>where\<close> clause does not
  mention the stored status.
\<close>

definition updateData :: "string \<Rightarrow> nat \<Rightarrow> message \<Rightarrow> message" where
  "updateData st now m =
     (if st = ''delivered'' then m\<lparr>status := st, deliveredAt := Some now\<rparr>
      else if st = ''read'' then m\<lparr>status := st, readAt := Some now, deliveredAt := Some now\<rparr>
      else m\<lparr>status := st\<rparr>)"

definition updateMessageStatus ::
  "message_table \<Rightarrow> string \<Rightarrow> string \<Rightarrow> string \<Rightarrow> nat \<Rightarrow> message_table \<times> nat" where
  "updateMessageStatus db messageId st userId now =
     (case db messageId of
        None \<Rightarrow> (db, 0)
      | Some m \<Rightarrow>
          if recipientId m = Some userId then (db(messageId \<mapsto> updateData st now m), 1)
          else (db, 0))"

text \<open>
  \<open>editMessage\<close> and \<open>deleteMessage\<close>: \<open>findUnique\<close> by id, then the checks, then \<open>update\<close>.
  Both throw \<open>Error("Message not found or unauthorized")\<close>; \<open>editMessage\<close> also throws
  \<open>Error("Cannot edit deleted message")\<close>. The result is the thrown error or the updated row,
  together with the table after the call.
\<close>

datatype db_error = NotFoundOrUnauthorized | CannotEditDeleted

definition editMessage ::
  "message_table \<Rightarrow> string \<Rightarrow> string \<Rightarrow> string \<Rightarrow> string \<Rightarrow> nat
     \<Rightarrow> (db_error + message) \<times> message_table" where
  "editMessage db messageId sender newCiphertext newIv now =
     (case db messageId of
        None \<Rightarrow> (Inl NotFoundOrUnauthorized, db)
      | Some m \<Rightarrow>
          if senderId m \<noteq> sender then (Inl NotFoundOrUnauthorized, db)
          else if isDeleted m then (Inl CannotEditDeleted, db)
          else
            (let m' = m\<lparr>ciphertext := newCiphertext, iv := newIv,
                         isEdited := True, editedAt := Some now\<rparr>
             in (Inr m', db(messageId \<mapsto> m'))))"

definition deleteMessage ::
  "message_table \<Rightarrow> string \<Rightarrow> string \<Rightarrow> nat \<Rightarrow> (db_error + message) \<times> message_table" where
  "deleteMessage db messageId sender now =
     (case db messageId of
        None \<Rightarrow> (Inl NotFoundOrUnauthorized, db)
      | Some m \<Rightarrow>
          if senderId m \<noteq> sender then (Inl NotFoundOrUnauthorized, db)
          else
            (let m' = m\<lparr>isDeleted := True, deletedAt := Some now,
                         ciphertext := [], iv := []\<rparr>
             in (Inr m', db(messageId \<mapsto> m'))))"

text \<open>A row as \<open>createMessage\<close> writes it, and a table holding one such row, for the examples.\<close>

definition created_message :: "string \<Rightarrow> string \<Rightarrow> string \<Rightarrow> message" where
  "created_message c s r =
     \<lparr>chatId = c, senderId = s, recipientId = Some r, ciphertext = ''Y2lwaGVy'', iv = ''aXY='',
      status = ''sent'', deliveredAt = None, readAt = None, isEdited = False, editedAt = None,
      isDeleted = False, deletedAt = None\<rparr>"

definition example_table :: message_table where
  "example_table = [''m1'' \<mapsto> created_message ''c1'' ''alice'' ''bob'']"

section \<open>Client: bytes and base64 (arrayBufferToBase64, base64ToArrayBuffer)\<close>

text \<open>
  A \<open>Uint8Array\<close> is a list of bytes. The two helpers of the encryption and storage
  modules go through the browser's \<open>btoa\<close> and \<open>atob\<close>: \<open>arrayBufferToBase64\<close> builds
  the binary string of the bytes and calls \<open>btoa\<close>, \<open>base64ToArrayBuffer\<close> calls \<open>atob\<close>
  and reads the char codes back. The binary string is identified with its byte list.
  \<open>btoa\<close> is base64 with padding (RFC 4648); \<open>atob\<close> is the forgiving decoder of the web
  platform: it removes ASCII whitespace, drops one or two trailing \<open>=\<close> when the length
  is a multiple of 4, fails (\<open>InvalidCharacterError\<close>, here \<open>None\<close>) when the remaining
  length is 1 modulo 4 or a character is outside the alphabet, and discards the unused
  low bits of a last partial group. Base64 text is ASCII, so it is a \<open>string\<close> here.
\<close>

type_synonym byte = "8 word"

definition b64_char :: "nat \<Rightarrow> char" where
  "b64_char n =
     (if n < 26 then char_of (65 + n)
      else if n < 52 then char_of (71 + n)
      else if n < 62 then char_of (n - 4)
      else if n = 62 then CHR ''+''
      else CHR ''/'')"

definition b64_index :: "char \<Rightarrow> nat option" where
  "b64_index c =
     (let n = (of_char c :: nat) in
      if 65 \<le> n \<and> n \<le> 90 then Some (n - 65)
      else if 97 \<le> n \<and> n \<le> 122 then Some (n - 71)
      else if 48 \<le> n \<and> n \<le> 57 then Some (n + 4)
      else if c = CHR ''+'' then Some 62
      else if c = CHR ''/'' then Some 63
      else None)"

fun sextets :: "byte list \<Rightarrow> nat list" where
  "sextets (a # b # c # rest) =
     [unat a div 4, (unat a mod 4) * 16 + unat b div 16,
      (unat b mod 16) * 4 + unat c div 64, unat c mod 64] @ sextets rest"
| "sextets [a, b] = [unat a div 4, (unat a mod 4) * 16 + unat b div 16, (unat b mod 16) * 4]"
| "sextets [a] = [unat a div 4, (unat a mod 4) * 16]"
| "sextets [] = []"

definition btoa :: "byte list \<Rightarrow> string" where
  "btoa bs = map b64_char (sextets bs) @ replicate ((3 - length bs mod 3) mod 3) CHR ''=''"

definition is_ascii_whitespace :: "char \<Rightarrow> bool" where
  "is_ascii_whitespace c = (of_char c \<in> {9, 10, 12, 13, 32 :: nat})"

definition strip_padding :: "string \<Rightarrow> string" where
  "strip_padding d =
     (if length d mod 4 = 0 \<and> d \<noteq> [] \<and> last d = CHR ''='' then
        (if butlast d \<noteq> [] \<and> last (butlast d) = CHR ''='' then butlast (butlast d)
         else butlast d)
      else d)"

fun unsextets :: "nat list \<Rightarrow> byte list" where
  "unsextets (s1 # s2 # s3 # s4 # rest) =
     [of_nat (s1 * 4 + s2 div 16), of_nat ((s2 mod 16) * 16 + s3 div 4),
      of_nat ((s3 mod 4) * 64 + s4)] @ unsextets rest"
| "unsextets [s1, s2, s3] = [of_nat (s1 * 4 + s2 div 16), of_nat ((s2 mod 16) * 16 + s3 div 4)]"
| "unsextets [s1, s2] = [of_nat (s1 * 4 + s2 div 16)]"
| "unsextets _ = []"

definition atob :: "string \<Rightarrow> byte list option" where
  "atob d =
     (let d1 = filter (\<lambda>c. \<not> is_ascii_whitespace c) d;
          d2 = strip_padding d1
      in if length d2 mod 4 = 1 then None
         else map_option unsextets (those (map b64_index d2)))"

section \<open>Client: TextEncoder and TextDecoder\<close>

text \<open>
  A JavaScript string is a sequence of UTF-16 code units. \<open>new TextEncoder().encode\<close>
  first converts the string to scalar values, where a surrogate that is not part of a
  pair becomes U+FFFD, and writes them in UTF-8. \<open>new TextDecoder().decode\<close> decodes UTF-8
  (each maximal ill-formed subsequence becomes U+FFFD and the offending byte is read
  again), then, since \<open>ignoreBOM\<close> is false by default, drops a leading U+FEFF, and
  writes the scalar values in UTF-16. It never throws.
  \<open>well_formed\<close> holds of the strings in which every surrogate is part of a pair,
  \<open>is_scalar\<close> of the scalar values, and \<open>starts_with_bom\<close> of the strings whose first
  code unit is U+FEFF. \<open>js_of_string\<close> reads an ASCII literal as a JavaScript string.
\<close>

type_synonym jsstring = "16 word list"

definition is_lead_surrogate :: "nat \<Rightarrow> bool" where
  "is_lead_surrogate n = (0xD800 \<le> n \<and> n \<le> 0xDBFF)"

definition is_trail_surrogate :: "nat \<Rightarrow> bool" where
  "is_trail_surrogate n = (0xDC00 \<le> n \<and> n \<le> 0xDFFF)"

fun to_scalars :: "jsstring \<Rightarrow> nat list" where
  "to_scalars [] = []"
| "to_scalars (c # cs) =
     (if is_lead_surrogate (unat c) then
        (case cs of
           [] \<Rightarrow> [0xFFFD]
         | d # ds \<Rightarrow>
             if is_trail_surrogate (unat d)
             then (0x10000 + (unat c - 0xD800) * 0x400 + (unat d - 0xDC00)) # to_scalars ds
             else 0xFFFD # to_scalars cs)
      else if is_trail_surrogate (unat c) then 0xFFFD # to_scalars cs
      else unat c # to_scalars cs)"

fun well_formed :: "jsstring \<Rightarrow> bool" where
  "well_formed [] = True"
| "well_formed (c # cs) =
     (if is_lead_surrogate (unat c) then
        (case cs of [] \<Rightarrow> False | d # ds \<Rightarrow> is_trail_surrogate (unat d) \<and> well_formed ds)
      else \<not> is_trail_surrogate (unat c) \<and> well_formed cs)"

definition utf8_encode_scalar :: "nat \<Rightarrow> byte list" where
  "utf8_encode_scalar cp =
     (if cp < 0x80 then [of_nat cp]
      else if cp < 0x800 then [of_nat (0xC0 + cp div 0x40), of_nat (0x80 + cp mod 0x40)]
      else if cp < 0x10000 then
        [of_nat (0xE0 + cp div 0x1000), of_nat (0x80 + cp div 0x40 mod 0x40),
         of_nat (0x80 + cp mod 0x40)]
      else
        [of_nat (0xF0 + cp div 0x40000), of_nat (0x80 + cp div 0x1000 mod 0x40),
         of_nat (0x80 + cp div 0x40 mod 0x40), of_nat (0x80 + cp mod 0x40)])"

definition TextEncoder_encode :: "jsstring \<Rightarrow> byte list" where
  "TextEncoder_encode s = concat (map utf8_encode_scalar (to_scalars s))"

definition in_range :: "nat \<Rightarrow> nat \<Rightarrow> byte \<Rightarrow> bool" where
  "in_range lo hi b = (lo \<le> unat b \<and> unat b \<le> hi)"

fun utf8_decode :: "byte list \<Rightarrow> nat list" where
  "utf8_decode [] = []"
| "utf8_decode (b # bs) =
     (let n = unat b in
      if n < 0x80 then n # utf8_decode bs
      else if 0xC2 \<le> n \<and> n \<le> 0xDF then
        (case bs of
           [] \<Rightarrow> [0xFFFD]
         | c1 # r1 \<Rightarrow>
             if in_range 0x80 0xBF c1
             then ((n - 0xC0) * 0x40 + (unat c1 - 0x80)) # utf8_decode r1
             else 0xFFFD # utf8_decode bs)
      else if 0xE0 \<le> n \<and> n \<le> 0xEF then
        (case bs of
           [] \<Rightarrow> [0xFFFD]
         | c1 # r1 \<Rightarrow>
             if in_range (if n = 0xE0 then 0xA0 else 0x80) (if n = 0xED then 0x9F else 0xBF) c1
             then
               (case r1 of
                  [] \<Rightarrow> [0xFFFD]
                | c2 # r2 \<Rightarrow>
                    if in_range 0x80 0xBF c2
                    then ((n - 0xE0) * 0x1000 + (unat c1 - 0x80) * 0x40 + (unat c2 - 0x80))
                           # utf8_decode r2
                    else 0xFFFD # utf8_decode r1)
             else 0xFFFD # utf8_decode bs)
      else if 0xF0 \<le> n \<and> n \<le> 0xF4 then
        (case bs of
           [] \<Rightarrow> [0xFFFD]
         | c1 # r1 \<Rightarrow>
             if in_range (if n = 0xF0 then 0x90 else 0x80) (if n = 0xF4 then 0x8F else 0xBF) c1
             then
               (case r1 of
                  [] \<Rightarrow> [0xFFFD]
                | c2 # r2 \<Rightarrow>
                    if in_range 0x80 0xBF c2
                    then
                      (case r2 of
                         [] \<Rightarrow> [0xFFFD]
                       | c3 # r3 \<Rightarrow>
                           if in_range 0x80 0xBF c3
                           then ((n - 0xF0) * 0x40000 + (unat c1 - 0x80) * 0x1000
                                   + (unat c2 - 0x80) * 0x40 + (unat c3 - 0x80)) # utf8_decode r3
                           else 0xFFFD # utf8_decode r2)
                    else 0xFFFD # utf8_decode r1)
             else 0xFFFD # utf8_decode bs)
      else 0xFFFD # utf8_decode bs)"

definition utf16_encode_scalar :: "nat \<Rightarrow> jsstring" where
  "utf16_encode_scalar cp =
     (if cp < 0x10000 then [of_nat cp]
      else [of_nat (0xD800 + (cp - 0x10000) div 0x400), of_nat (0xDC00 + (cp - 0x10000) mod 0x400)])"

definition strip_bom :: "nat list \<Rightarrow> nat list" where
  "strip_bom cps = (case cps of [] \<Rightarrow> [] | c # cs \<Rightarrow> if c = 0xFEFF then cs else c # cs)"

definition TextDecoder_decode :: "byte list \<Rightarrow> jsstring" where
  "TextDecoder_decode bs = concat (map utf16_encode_scalar (strip_bom (utf8_decode bs)))"

definition js_of_string :: "string \<Rightarrow> jsstring" where
  "js_of_string s = map (\<lambda>c. of_nat (of_char c)) s"

definition is_scalar :: "nat \<Rightarrow> bool" where
  "is_scalar cp = (cp < 0x110000 \<and> \<not> (0xD800 \<le> cp \<and> cp \<le> 0xDFFF))"

definition starts_with_bom :: "jsstring \<Rightarrow> bool" where
  "starts_with_bom s = (case s of [] \<Rightarrow> False | c # _ \<Rightarrow> c = 0xFEFF)"

section \<open>Client: the Web Crypto primitives and the random source\<close>

text \<open>
  \<open>crypto.getRandomValues\<close> reads the next bytes of an entropy stream: \<open>entropy\<close> is the
  stream and \<open>drawn\<close> the number of bytes read so far.
\<close>

record rng =
  entropy :: "nat \<Rightarrow> byte"
  drawn :: nat

definition getRandomValues :: "rng \<Rightarrow> nat \<Rightarrow> byte list \<times> rng" where
  "getRandomValues g n = (map (entropy g) [drawn g ..< drawn g + n], g\<lparr>drawn := drawn g + n\<rparr>)"

text \<open>
  The primitives of \<open>crypto.subtle\<close> and \<open>JSON\<close> are parameters of the model, collected
  in one record; \<open>'k\<close> is the type of AES keys (\<open>CryptoKey\<close>) and \<open>'kp\<close> of ECDH key pairs.
  \<^item> \<open>aes_gcm_encrypt key iv data\<close> is AES-GCM with a 128-bit tag: ciphertext followed by
    the tag. \<open>aes_gcm_decrypt\<close> is \<open>None\<close> where \<open>crypto.subtle.decrypt\<close> rejects.
  \<^item> \<open>ecdh_hkdf pair spki\<close> is \<open>importPublicKey\<close> followed by \<open>deriveSharedKey\<close> with the
    pair's private key; \<open>None\<close> where the import rejects.
  \<^item> \<open>pbkdf2 password salt\<close> is the PBKDF2 derivation of \<open>deriveKeyFromPassword\<close>.
  \<^item> \<open>json_stringify_data\<close> and \<open>json_parse_data\<close> are \<open>JSON.stringify\<close> and \<open>JSON.parse\<close>
    on the record \<open>{iv, ciphertext}\<close>, a pair here; \<open>json_stringify_keys\<close> and
    \<open>json_parse_keys\<close> on \<open>{privateKey, publicKey}\<close>. A parse is \<open>None\<close> where it throws.
\<close>

record ('kp, 'k) web_platform =
  aes_gcm_encrypt :: "'k \<Rightarrow> byte list \<Rightarrow> byte list \<Rightarrow> byte list"
  aes_gcm_decrypt :: "'k \<Rightarrow> byte list \<Rightarrow> byte list \<Rightarrow> byte list option"
  ecdh_hkdf :: "'kp \<Rightarrow> byte list \<Rightarrow> 'k option"
  pbkdf2 :: "byte list \<Rightarrow> byte list \<Rightarrow> 'k"
  json_stringify_data :: "string \<times> string \<Rightarrow> string"
  json_parse_data :: "string \<Rightarrow> (string \<times> string) option"
  json_stringify_keys :: "string \<times> string \<Rightarrow> jsstring"
  json_parse_keys :: "jsstring \<Rightarrow> (string \<times> string) option"

text \<open>
  The errors the client code throws, one constructor for each message or platform
  exception: "No secure channel established with recipient" and "... with sender",
  "Decryption failed - message may have been tampered with", the \<open>InvalidCharacterError\<close>
  of \<open>atob\<close>, "Key pair not initialized", a rejected key import, "No stored credentials
  found. Please register first.", "Invalid password", "SecureStorage not initialized",
  the \<open>OperationError\<close> of a rejected decryption, and the \<open>SyntaxError\<close> of \<open>JSON.parse\<close>.
\<close>

datatype client_error =
    NoChannelWithRecipient
  | NoChannelWithSender
  | DecryptionFailed
  | InvalidCharacterError
  | KeyPairNotInitialized
  | ImportKeyError
  | NoStoredCredentials
  | InvalidPassword
  | NotInitialized
  | OperationError
  | SyntaxError

section \<open>Client: encryptMessage, decryptMessage and the KeyManager\<close>

text \<open>
  \<open>EncryptedMessage\<close> is \<open>{ciphertext, iv}\<close>; its fields carry the prefix \<open>em_\<close> because the
  server's row already has fields of these names. In \<open>decryptMessage\<close> the two base64
  conversions stand before the \<open>try\<close>, so their exception is not turned into
  "Decryption failed"; only the rejection of \<open>crypto.subtle.decrypt\<close> is.
\<close>

record encrypted_message =
  em_ciphertext :: string
  em_iv :: string

definition arrayBufferToBase64 :: "byte list \<Rightarrow> string" where
  "arrayBufferToBase64 buffer = btoa buffer"

definition base64ToArrayBuffer :: "string \<Rightarrow> client_error + byte list" where
  "base64ToArrayBuffer base64 =
     (case atob base64 of None \<Rightarrow> Inl InvalidCharacterError | Some bytes \<Rightarrow> Inr bytes)"

definition encryptMessage ::
  "('kp, 'k) web_platform \<Rightarrow> rng \<Rightarrow> jsstring \<Rightarrow> 'k \<Rightarrow> encrypted_message \<times> rng" where
  "encryptMessage pf g plaintext key =
     (let (ivb, g') = getRandomValues g 12;
          data = TextEncoder_encode plaintext;
          ct = aes_gcm_encrypt pf key ivb data
      in (\<lparr>em_ciphertext = arrayBufferToBase64 ct, em_iv = arrayBufferToBase64 ivb\<rparr>, g'))"

definition decryptMessage ::
  "('kp, 'k) web_platform \<Rightarrow> string \<Rightarrow> string \<Rightarrow> 'k \<Rightarrow> client_error + jsstring" where
  "decryptMessage pf ciphertextBase64 ivBase64 key =
     (case base64ToArrayBuffer ciphertextBase64 of
        Inl e \<Rightarrow> Inl e
      | Inr ct \<Rightarrow>
          (case base64ToArrayBuffer ivBase64 of
             Inl e \<Rightarrow> Inl e
           | Inr ivb \<Rightarrow>
               (case aes_gcm_decrypt pf key ivb ct of
                  None \<Rightarrow> Inl DecryptionFailed
                | Some decrypted \<Rightarrow> Inr (TextDecoder_decode decrypted))))"

text \<open>
  The \<open>KeyManager\<close>: the own key pair and the map from peer ids to shared keys.
  \<open>encryptFor\<close> and \<open>decryptFrom\<close> throw when the map has no key for the peer; \<open>encryptFor\<close>
  then draws nothing from the random source.
\<close>

record ('kp, 'k) key_manager =
  keyPair :: "'kp option"
  sharedKeys :: "string \<rightharpoonup> 'k"

definition establishChannel ::
  "('kp, 'k) web_platform \<Rightarrow> ('kp, 'k) key_manager \<Rightarrow> string \<Rightarrow> string
     \<Rightarrow> client_error + ('kp, 'k) key_manager" where
  "establishChannel pf km recipient theirPublicKeyBase64 =
     (case keyPair km of
        None \<Rightarrow> Inl KeyPairNotInitialized
      | Some kp \<Rightarrow>
          (case base64ToArrayBuffer theirPublicKeyBase64 of
             Inl e \<Rightarrow> Inl e
           | Inr spki \<Rightarrow>
               (case ecdh_hkdf pf kp spki of
                  None \<Rightarrow> Inl ImportKeyError
                | Some sharedKey \<Rightarrow>
                    Inr (km\<lparr>sharedKeys := (sharedKeys km)(recipient \<mapsto> sharedKey)\<rparr>))))"

definition encryptFor ::
  "('kp, 'k) web_platform \<Rightarrow> ('kp, 'k) key_manager \<Rightarrow> rng \<Rightarrow> string \<Rightarrow> jsstring
     \<Rightarrow> (client_error + encrypted_message) \<times> rng" where
  "encryptFor pf km g recipient msg =
     (case sharedKeys km recipient of
        None \<Rightarrow> (Inl NoChannelWithRecipient, g)
      | Some sharedKey \<Rightarrow>
          (let (e, g') = encryptMessage pf g msg sharedKey in (Inr e, g')))"

definition decryptFrom ::
  "('kp, 'k) web_platform \<Rightarrow> ('kp, 'k) key_manager \<Rightarrow> string \<Rightarrow> string \<Rightarrow> string
     \<Rightarrow> client_error + jsstring" where
  "decryptFrom pf km sender ciphertextBase64 ivBase64 =
     (case sharedKeys km sender of
        None \<Rightarrow> Inl NoChannelWithSender
      | Some sharedKey \<Rightarrow> decryptMessage pf ciphertextBase64 ivBase64 sharedKey)"

definition hasChannel :: "('kp, 'k) key_manager \<Rightarrow> string \<Rightarrow> bool" where
  "hasChannel km recipient = (sharedKeys km recipient \<noteq> None)"

definition removeChannel :: "('kp, 'k) key_manager \<Rightarrow> string \<Rightarrow> ('kp, 'k) key_manager" where
  "removeChannel km recipient = km\<lparr>sharedKeys := (sharedKeys km)(recipient := None)\<rparr>"

text \<open>
  A sequence of \<open>encryptFor\<close> calls for one peer, threading the random source.
\<close>

fun encryptForAll ::
  "('kp, 'k) web_platform \<Rightarrow> ('kp, 'k) key_manager \<Rightarrow> rng \<Rightarrow> string \<Rightarrow> jsstring list
     \<Rightarrow> (client_error + encrypted_message) list \<times> rng" where
  "encryptForAll pf km g recipient [] = ([], g)"
| "encryptForAll pf km g recipient (m # ms) =
     (let (r, g') = encryptFor pf km g recipient m;
          (rs, g'') = encryptForAll pf km g' recipient ms
      in (r # rs, g''))"

section \<open>Client: SecureStorage\<close>

text \<open>
  The state of a \<open>SecureStorage\<close> object, together with the two pieces of the environment
  its methods use: the browser's \<open>localStorage\<close> (a map from keys to strings) and the
  random source. The model is of the browser, where \<open>window\<close> is defined.
  \<open>truthy\<close> is the JavaScript test of \<open>if (storedSalt)\<close> on the result of \<open>getItem\<close>:
  a missing entry and the empty string are both falsy.
  \<open>initialize\<close> follows the source: the salt (generated and stored, or loaded), then the
  master key and \<open>initialized = true\<close>, then for an existing user the decryption of the
  verification entry inside \<open>try\<close>, whose \<open>catch\<close> clears the key and the flag and throws
  "Invalid password", and for a new user the storing of the encrypted verification token.
\<close>

definition STORAGE_KEY_PREFIX :: string where
  "STORAGE_KEY_PREFIX = ''secure_chat_''"

definition KEYS_STORAGE_NAME :: string where
  "KEYS_STORAGE_NAME = STORAGE_KEY_PREFIX @ ''encryption_keys''"

definition deriveKeyFromPassword :: "('kp, 'k) web_platform \<Rightarrow> jsstring \<Rightarrow> byte list \<Rightarrow> 'k" where
  "deriveKeyFromPassword pf password salt = pbkdf2 pf (TextEncoder_encode password) salt"

definition generateSalt :: "rng \<Rightarrow> byte list \<times> rng" where
  "generateSalt g = getRandomValues g 32"

definition encryptForStorage ::
  "('kp, 'k) web_platform \<Rightarrow> rng \<Rightarrow> jsstring \<Rightarrow> 'k \<Rightarrow> string \<times> rng" where
  "encryptForStorage pf g data key =
     (let (ivb, g') = getRandomValues g 12;
          ct = aes_gcm_encrypt pf key ivb (TextEncoder_encode data)
      in (json_stringify_data pf (arrayBufferToBase64 ivb, arrayBufferToBase64 ct), g'))"

definition decryptFromStorage ::
  "('kp, 'k) web_platform \<Rightarrow> string \<Rightarrow> 'k \<Rightarrow> client_error + jsstring" where
  "decryptFromStorage pf encryptedJson key =
     (case json_parse_data pf encryptedJson of
        None \<Rightarrow> Inl SyntaxError
      | Some (ivBase64, ciphertextBase64) \<Rightarrow>
          (case base64ToArrayBuffer ivBase64 of
             Inl e \<Rightarrow> Inl e
           | Inr ivb \<Rightarrow>
               (case base64ToArrayBuffer ciphertextBase64 of
                  Inl e \<Rightarrow> Inl e
                | Inr ct \<Rightarrow>
                    (case aes_gcm_decrypt pf key ivb ct of
                       None \<Rightarrow> Inl OperationError
                     | Some decrypted \<Rightarrow> Inr (TextDecoder_decode decrypted)))))"

record 'k secure_storage =
  masterKey :: "'k option"
  salt :: "byte list option"
  initialized :: bool
  localStorage :: "string \<rightharpoonup> string"
  vault_random :: rng

definition truthy :: "string option \<Rightarrow> bool" where
  "truthy v = (v \<noteq> None \<and> v \<noteq> Some [])"

definition initialize ::
  "('kp, 'k) web_platform \<Rightarrow> 'k secure_storage \<Rightarrow> jsstring \<Rightarrow> bool
     \<Rightarrow> (client_error + unit) \<times> 'k secure_storage" where
  "initialize pf w password isNewUser =
     (case
        (if isNewUser then
           (let (s, g) = generateSalt (vault_random w)
            in Inr (s, w\<lparr>salt := Some s,
                          localStorage := (localStorage w)
                            (STORAGE_KEY_PREFIX @ ''salt'' \<mapsto> arrayBufferToBase64 s),
                          vault_random := g\<rparr>))
         else
           (let storedSalt = localStorage w (STORAGE_KEY_PREFIX @ ''salt'')
            in if \<not> truthy storedSalt then Inl NoStoredCredentials
               else
                 (case base64ToArrayBuffer (the storedSalt) of
                    Inl e \<Rightarrow> Inl e
                  | Inr s \<Rightarrow> Inr (s, w\<lparr>salt := Some s\<rparr>))))
      of
        Inl e \<Rightarrow> (Inl e, w)
      | Inr (s, w1) \<Rightarrow>
          (let key = deriveKeyFromPassword pf password s;
               w2 = w1\<lparr>masterKey := Some key, initialized := True\<rparr>
           in if \<not> isNewUser then
                (let verificationData = localStorage w2 (STORAGE_KEY_PREFIX @ ''verification'')
                 in if truthy verificationData then
                      (case decryptFromStorage pf (the verificationData) key of
                         Inl e \<Rightarrow> (Inl InvalidPassword, w2\<lparr>masterKey := None, initialized := False\<rparr>)
                       | Inr v \<Rightarrow> (Inr (), w2))
                    else (Inr (), w2))
              else
                (let (verificationData, g) =
                       encryptForStorage pf (vault_random w2) (js_of_string ''verification_token'') key
                 in (Inr (), w2\<lparr>localStorage := (localStorage w2)
                                     (STORAGE_KEY_PREFIX @ ''verification'' \<mapsto> verificationData),
                                  vault_random := g\<rparr>))))"

definition isInitialized :: "'k secure_storage \<Rightarrow> bool" where
  "isInitialized w = initialized w"

definition storeKeys ::
  "('kp, 'k) web_platform \<Rightarrow> 'k secure_storage \<Rightarrow> string \<times> string
     \<Rightarrow> (client_error + unit) \<times> 'k secure_storage" where
  "storeKeys pf w keys =
     (case masterKey w of
        None \<Rightarrow> (Inl NotInitialized, w)
      | Some key \<Rightarrow>
          if \<not> initialized w then (Inl NotInitialized, w)
          else
            (let (encrypted, g) =
                   encryptForStorage pf (vault_random w) (json_stringify_keys pf keys) key
             in (Inr (), w\<lparr>localStorage := (localStorage w)(KEYS_STORAGE_NAME \<mapsto> encrypted),
                             vault_random := g\<rparr>)))"

definition getKeys ::
  "('kp, 'k) web_platform \<Rightarrow> 'k secure_storage \<Rightarrow> client_error + (string \<times> string) option" where
  "getKeys pf w =
     (case masterKey w of
        None \<Rightarrow> Inl NotInitialized
      | Some key \<Rightarrow>
          if \<not> initialized w then Inl NotInitialized
          else
            (let encrypted = localStorage w KEYS_STORAGE_NAME
             in if \<not> truthy encrypted then Inr None
                else
                  (case decryptFromStorage pf (the encrypted) key of
                     Inl e \<Rightarrow> Inl e
                   | Inr decrypted \<Rightarrow>
                       (case json_parse_keys pf decrypted of
                          None \<Rightarrow> Inl SyntaxError
                        | Some keys \<Rightarrow> Inr (Some keys)))))"

definition clear :: "'k secure_storage \<Rightarrow> 'k secure_storage" where
  "clear w =
     w\<lparr>localStorage :=
         (\<lambda>key. if take (length STORAGE_KEY_PREFIX) key = STORAGE_KEY_PREFIX then None
                else localStorage w key),
       masterKey := None, salt := None, initialized := False\<rparr>"

definition lock :: "'k secure_storage \<Rightarrow> 'k secure_storage" where
  "lock w = w\<lparr>masterKey := None, initialized := False\<rparr>"

definition hasStoredData :: "'k secure_storage \<Rightarrow> bool" where
  "hasStoredData w = (localStorage w (STORAGE_KEY_PREFIX @ ''salt'') \<noteq> None)"

section \<open>Client: SecureSocketClient\<close>

text \<open>
  \<open>QueuedMessage\<close> with its fields prefixed \<open>qm_\<close>. The state of the client: whether
  \<open>socket\<close> is non-null, \<open>isConnected\<close>, the \<open>messageQueue\<close>, the key manager, the random
  source, and \<open>wire\<close>, the list of the events passed to \<open>socket.emit\<close> so far, oldest
  first. \<open>crypto.randomUUID()\<close> and \<open>Date.now()\<close> of \<open>sendMessage\<close> are its arguments
  \<open>messageId\<close> and \<open>now\<close>. \<open>on_connect\<close> and \<open>on_disconnect\<close> are the listeners of the
  socket's "connect" and "disconnect" events, up to the call of the handler the chat
  context has registered; \<open>connect\<close> creates the socket.
  The loop of \<open>flushMessageQueue\<close> is a recursion on the queue.
\<close>

record queued_message =
  qm_recipientId :: string
  qm_chatId :: string
  qm_ciphertext :: string
  qm_iv :: string
  qm_timestamp :: nat
  qm_messageId :: string

datatype wire_event =
    Encrypted_message queued_message
  | Request_public_key string
  | Register_public_key string string

record ('kp, 'k) secure_socket_client =
  socket :: bool
  isConnected :: bool
  messageQueue :: "queued_message list"
  keyManager :: "('kp, 'k) key_manager"
  wire :: "wire_event list"
  client_random :: rng

definition emit ::
  "('kp, 'k) secure_socket_client \<Rightarrow> wire_event \<Rightarrow> ('kp, 'k) secure_socket_client" where
  "emit c ev = (if socket c \<and> isConnected c then c\<lparr>wire := wire c @ [ev]\<rparr> else c)"

function flushMessageQueue ::
  "('kp, 'k) secure_socket_client \<Rightarrow> ('kp, 'k) secure_socket_client" where
  "flushMessageQueue c =
     (if length (messageQueue c) > 0 \<and> isConnected c \<and> socket c then
        (case messageQueue c of
           [] \<Rightarrow> c
         | message # rest \<Rightarrow>
             flushMessageQueue
               (c\<lparr>messageQueue := rest, wire := wire c @ [Encrypted_message message]\<rparr>))
      else c)"
  by pat_completeness auto
termination
  by (relation "measure (\<lambda>c. length (messageQueue c))") auto

declare flushMessageQueue.simps [simp del]

definition connect :: "('kp, 'k) secure_socket_client \<Rightarrow> ('kp, 'k) secure_socket_client" where
  "connect c = c\<lparr>socket := True\<rparr>"

definition on_connect :: "('kp, 'k) secure_socket_client \<Rightarrow> ('kp, 'k) secure_socket_client" where
  "on_connect c = flushMessageQueue (c\<lparr>isConnected := True\<rparr>)"

definition on_disconnect :: "('kp, 'k) secure_socket_client \<Rightarrow> ('kp, 'k) secure_socket_client" where
  "on_disconnect c = c\<lparr>isConnected := False\<rparr>"

definition disconnect :: "('kp, 'k) secure_socket_client \<Rightarrow> ('kp, 'k) secure_socket_client" where
  "disconnect c = c\<lparr>socket := False, isConnected := False, messageQueue := []\<rparr>"

definition sendMessage ::
  "('kp, 'k) web_platform \<Rightarrow> ('kp, 'k) secure_socket_client \<Rightarrow> string \<Rightarrow> jsstring \<Rightarrow> string
     \<Rightarrow> string \<Rightarrow> nat \<Rightarrow> (client_error + string) \<times> ('kp, 'k) secure_socket_client" where
  "sendMessage pf c recipient content chat messageId now =
     (case encryptFor pf (keyManager c) (client_random c) recipient content of
        (Inl e, g) \<Rightarrow> (Inl e, c)
      | (Inr encrypted, g) \<Rightarrow>
          (let messageData =
                 \<lparr>qm_recipientId = recipient, qm_chatId = chat,
                  qm_ciphertext = em_ciphertext encrypted, qm_iv = em_iv encrypted,
                  qm_timestamp = now, qm_messageId = messageId\<rparr>;
               c' = c\<lparr>client_random := g\<rparr>
           in if isConnected c' \<and> socket c'
              then (Inr messageId, c'\<lparr>wire := wire c' @ [Encrypted_message messageData]\<rparr>)
              else (Inr messageId, c'\<lparr>messageQueue := messageQueue c' @ [messageData]\<rparr>)))"

definition requestPublicKey ::
  "('kp, 'k) secure_socket_client \<Rightarrow> string \<Rightarrow> ('kp, 'k) secure_socket_client" where
  "requestPublicKey c userId = emit c (Request_public_key userId)"

definition SecureSocketClient_establishChannel ::
  "('kp, 'k) web_platform \<Rightarrow> ('kp, 'k) secure_socket_client \<Rightarrow> string \<Rightarrow> string
     \<Rightarrow> (client_error + unit) \<times> ('kp, 'k) secure_socket_client" where
  "SecureSocketClient_establishChannel pf c userId publicKey =
     (case establishChannel pf (keyManager c) userId publicKey of
        Inl e \<Rightarrow> (Inl e, c)
      | Inr km \<Rightarrow> (Inr (), c\<lparr>keyManager := km\<rparr>))"

definition SecureSocketClient_hasChannel :: "('kp, 'k) secure_socket_client \<Rightarrow> string \<Rightarrow> bool" where
  "SecureSocketClient_hasChannel c userId = hasChannel (keyManager c) userId"

text \<open>
  A sequence of \<open>sendMessage\<close> calls, each with its arguments, run one after the other.
\<close>

record send_request =
  sr_recipientId :: string
  sr_content :: jsstring
  sr_chatId :: string
  sr_messageId :: string
  sr_now :: nat

fun send_sequence ::
  "('kp, 'k) web_platform \<Rightarrow> ('kp, 'k) secure_socket_client \<Rightarrow> send_request list
     \<Rightarrow> (client_error + string) list \<times> ('kp, 'k) secure_socket_client" where
  "send_sequence pf c [] = ([], c)"
| "send_sequence pf c (r # rs) =
     (let (res, c') = sendMessage pf c (sr_recipientId r) (sr_content r) (sr_chatId r)
                        (sr_messageId r) (sr_now r);
          (ress, c'') = send_sequence pf c' rs
      in (res # ress, c''))"

section \<open>Client: sendMessage of the ChatContext\<close>

text \<open>
  \<open>sendMessage\<close> of the chat context asks for the recipient's public key when there is no
  channel, awaits \<open>setTimeout(resolve, 1000)\<close>, and calls the client's \<open>sendMessage\<close>.
  During the wait the \<open>public_key_response\<close> events that arrive are handled by
  \<open>onPublicKey\<close>, which establishes the channel. The events are given with their arrival
  time in milliseconds after the request,
  together with the time at which the handler's \<open>establishChannel\<close>, which awaits the
  key import and derivation, stores the key. The keys stored before the timer fires are
  there at the send; a response that arrives in time but whose handler finishes after
  the timer is not. The responses are listed in the order in which their handlers
  finish. The update of the displayed message list after the send is not modelled.
\<close>

record public_key_event =
  pk_arrival :: nat
  pk_established :: nat
  pk_userId :: string
  pk_publicKey :: string

definition onPublicKey ::
  "('kp, 'k) web_platform \<Rightarrow> ('kp, 'k) secure_socket_client \<Rightarrow> public_key_event
     \<Rightarrow> ('kp, 'k) secure_socket_client" where
  "onPublicKey pf c event =
     snd (SecureSocketClient_establishChannel pf c (pk_userId event) (pk_publicKey event))"

definition wait_1000 ::
  "('kp, 'k) web_platform \<Rightarrow> ('kp, 'k) secure_socket_client \<Rightarrow> public_key_event list
     \<Rightarrow> ('kp, 'k) secure_socket_client" where
  "wait_1000 pf c responses =
     foldl (onPublicKey pf) c (filter (\<lambda>e. pk_established e < 1000) responses)"

definition ChatContext_sendMessage ::
  "('kp, 'k) web_platform \<Rightarrow> ('kp, 'k) secure_socket_client \<Rightarrow> public_key_event list
     \<Rightarrow> string \<Rightarrow> jsstring \<Rightarrow> string \<Rightarrow> string \<Rightarrow> nat
     \<Rightarrow> (client_error + string) \<times> ('kp, 'k) secure_socket_client" where
  "ChatContext_sendMessage pf c responses recipient content chat messageId now =
     (let c1 = (if \<not> SecureSocketClient_hasChannel c recipient
                then wait_1000 pf (requestPublicKey c recipient) responses
                else c)
      in sendMessage pf c1 recipient content chat messageId now)"

section \<open>Properties of the primitives and derived notions\<close>

text \<open>
  What the proofs ask of AES-GCM: decryption inverts encryption under the same key and
  IV (\<open>aead_correct\<close>), and a ciphertext with one bit flipped, in the body or in the tag,
  is rejected (\<open>aead_tamper_evident\<close>). \<open>flip_bit_at i\<close> flips bit \<open>i mod 8\<close> of byte
  \<open>i div 8\<close>.
  \<open>round_trip\<close> encrypts for a peer and decrypts the result as coming from that peer.
  \<open>tampered\<close> encrypts, flips one bit of the ciphertext bytes, encodes them again and
  decrypts; \<open>ciphertext_bits\<close> is the number of bits of the ciphertext bytes.
  \<open>iv_block g i\<close> is the \<open>i\<close>-th block of 12 bytes of the random source from its current
  position; \<open>ivs_of\<close> projects results to their IVs.
  For a sequence of send requests: \<open>has_channel_for\<close> says that the request's recipient has
  a channel, \<open>send_result\<close> is the message id for such a request and the missing-channel
  error otherwise, \<open>queued_entry pf km g i r\<close> is the envelope of request \<open>r\<close> with its
  content encrypted under the recipient's key with the \<open>i\<close>-th IV block, and
  \<open>queued_entries\<close> lists these envelopes for a list of requests, the \<open>i\<close>-th request with
  the \<open>i\<close>-th block.
\<close>

definition aead_correct :: "('kp, 'k) web_platform \<Rightarrow> bool" where
  "aead_correct pf =
     (\<forall>key ivb p. aes_gcm_decrypt pf key ivb (aes_gcm_encrypt pf key ivb p) = Some p)"

definition flip_bit_at :: "nat \<Rightarrow> byte list \<Rightarrow> byte list" where
  "flip_bit_at i bs = bs[i div 8 := (bs ! (i div 8)) XOR push_bit (i mod 8) 1]"

definition aead_tamper_evident :: "('kp, 'k) web_platform \<Rightarrow> bool" where
  "aead_tamper_evident pf =
     (\<forall>key ivb p i. i < 8 * length (aes_gcm_encrypt pf key ivb p)
        \<longrightarrow> aes_gcm_decrypt pf key ivb (flip_bit_at i (aes_gcm_encrypt pf key ivb p)) = None)"

definition round_trip ::
  "('kp, 'k) web_platform \<Rightarrow> ('kp, 'k) key_manager \<Rightarrow> rng \<Rightarrow> string \<Rightarrow> jsstring
     \<Rightarrow> client_error + jsstring" where
  "round_trip pf km g peer P =
     (case encryptFor pf km g peer P of
        (Inl e, g') \<Rightarrow> Inl e
      | (Inr e, g') \<Rightarrow> decryptFrom pf km peer (em_ciphertext e) (em_iv e))"

definition iv_block :: "rng \<Rightarrow> nat \<Rightarrow> byte list" where
  "iv_block g i = map (entropy g) [drawn g + 12 * i ..< drawn g + 12 * i + 12]"

definition has_channel_for :: "('kp, 'k) secure_socket_client \<Rightarrow> send_request \<Rightarrow> bool" where
  "has_channel_for c r = SecureSocketClient_hasChannel c (sr_recipientId r)"

definition queued_entry ::
  "('kp, 'k) web_platform \<Rightarrow> ('kp, 'k) key_manager \<Rightarrow> rng \<Rightarrow> nat \<Rightarrow> send_request
     \<Rightarrow> queued_message" where
  "queued_entry pf km g i r =
     \<lparr>qm_recipientId = sr_recipientId r, qm_chatId = sr_chatId r,
      qm_ciphertext =
        (case sharedKeys km (sr_recipientId r) of
           None \<Rightarrow> []
         | Some key \<Rightarrow>
             arrayBufferToBase64
               (aes_gcm_encrypt pf key (iv_block g i) (TextEncoder_encode (sr_content r)))),
      qm_iv = arrayBufferToBase64 (iv_block g i),
      qm_timestamp = sr_now r, qm_messageId = sr_messageId r\<rparr>"

definition queued_entries ::
  "('kp, 'k) web_platform \<Rightarrow> ('kp, 'k) key_manager \<Rightarrow> rng \<Rightarrow> send_request list
     \<Rightarrow> queued_message list" where
  "queued_entries pf km g rs = map (\<lambda>i. queued_entry pf km g i (rs ! i)) [0..<length rs]"

definition send_result :: "('kp, 'k) secure_socket_client \<Rightarrow> send_request \<Rightarrow> client_error + string" where
  "send_result c r = (if has_channel_for c r then Inr (sr_messageId r) else Inl NoChannelWithRecipient)"

definition ivs_of :: "(client_error + encrypted_message) list \<Rightarrow> (client_error + string) list" where
  "ivs_of rs = map (map_sum id em_iv) rs"

definition tampered ::
  "('kp, 'k) web_platform \<Rightarrow> ('kp, 'k) key_manager \<Rightarrow> rng \<Rightarrow> string \<Rightarrow> jsstring \<Rightarrow> nat
     \<Rightarrow> client_error + jsstring" where
  "tampered pf km g peer P i =
     (case encryptFor pf km g peer P of
        (Inl e, g') \<Rightarrow> Inl e
      | (Inr e, g') \<Rightarrow>
          (case base64ToArrayBuffer (em_ciphertext e) of
             Inl x \<Rightarrow> Inl x
           | Inr ct \<Rightarrow>
               decryptFrom pf km peer (arrayBufferToBase64 (flip_bit_at i ct)) (em_iv e)))"

definition ciphertext_bits ::
  "('kp, 'k) web_platform \<Rightarrow> ('kp, 'k) key_manager \<Rightarrow> rng \<Rightarrow> string \<Rightarrow> jsstring \<Rightarrow> nat" where
  "ciphertext_bits pf km g peer P =
     (case encryptFor pf km g peer P of
        (Inl e, g') \<Rightarrow> 0
      | (Inr e, g') \<Rightarrow>
          (case base64ToArrayBuffer (em_ciphertext e) of
             Inl x \<Rightarrow> 0
           | Inr ct \<Rightarrow> 8 * length ct))"

section \<open>A small platform and example states\<close>

text \<open>
  An instance of the primitives for the examples: keys are bytes, encryption is XOR with
  the key followed by a 16-byte tag over key, IV and body; JSON texts have the shape
  \<open>JSON.stringify\<close> gives. It satisfies the two properties of the previous section.
\<close>

definition checksum :: "byte list \<Rightarrow> byte" where
  "checksum bs = foldr (XOR) bs 0"

definition toy_tag :: "byte \<Rightarrow> byte list \<Rightarrow> byte list \<Rightarrow> byte list" where
  "toy_tag k ivb body = replicate 16 (k XOR checksum (ivb @ body))"

definition toy_encrypt :: "byte \<Rightarrow> byte list \<Rightarrow> byte list \<Rightarrow> byte list" where
  "toy_encrypt k ivb p = (let body = map (\<lambda>b. b XOR k) p in body @ toy_tag k ivb body)"

definition toy_decrypt :: "byte \<Rightarrow> byte list \<Rightarrow> byte list \<Rightarrow> byte list option" where
  "toy_decrypt k ivb c =
     (if length c < 16 then None
      else
        (let body = take (length c - 16) c
         in if drop (length c - 16) c = toy_tag k ivb body
            then Some (map (\<lambda>b. b XOR k) body) else None))"

definition toy_pbkdf2 :: "byte list \<Rightarrow> byte list \<Rightarrow> byte" where
  "toy_pbkdf2 password s = checksum password + checksum s"

definition toy_ecdh_hkdf :: "byte \<Rightarrow> byte list \<Rightarrow> byte option" where
  "toy_ecdh_hkdf priv spki = (if spki = [] then None else Some (priv XOR checksum spki))"

definition dquote :: char where
  "dquote = CHR 0x22"

definition json_object2 :: "string \<Rightarrow> string \<Rightarrow> string \<times> string \<Rightarrow> string" where
  "json_object2 k1 k2 v =
     ''{'' @ [dquote] @ k1 @ [dquote] @ '':'' @ [dquote] @ fst v @ [dquote] @ '',''
       @ [dquote] @ k2 @ [dquote] @ '':'' @ [dquote] @ snd v @ [dquote] @ ''}''"

definition strip_prefix :: "string \<Rightarrow> string \<Rightarrow> string option" where
  "strip_prefix p s = (if take (length p) s = p then Some (drop (length p) s) else None)"

definition parse_object2 :: "string \<Rightarrow> string \<Rightarrow> string \<Rightarrow> (string \<times> string) option" where
  "parse_object2 k1 k2 s =
     (case strip_prefix (''{'' @ [dquote] @ k1 @ [dquote] @ '':'' @ [dquote]) s of
        None \<Rightarrow> None
      | Some r1 \<Rightarrow>
          (case strip_prefix ([dquote] @ '','' @ [dquote] @ k2 @ [dquote] @ '':'' @ [dquote])
                  (dropWhile (\<lambda>c. c \<noteq> dquote) r1) of
             None \<Rightarrow> None
           | Some r2 \<Rightarrow>
               if dropWhile (\<lambda>c. c \<noteq> dquote) r2 = [dquote] @ ''}''
               then Some (takeWhile (\<lambda>c. c \<noteq> dquote) r1, takeWhile (\<lambda>c. c \<noteq> dquote) r2)
               else None))"

definition string_of_js :: "jsstring \<Rightarrow> string" where
  "string_of_js s = map (\<lambda>u. char_of (unat u)) s"

definition toy_platform :: "(byte, byte) web_platform" where
  "toy_platform =
     \<lparr>aes_gcm_encrypt = toy_encrypt, aes_gcm_decrypt = toy_decrypt, ecdh_hkdf = toy_ecdh_hkdf,
      pbkdf2 = toy_pbkdf2,
      json_stringify_data = json_object2 ''iv'' ''ciphertext'',
      json_parse_data = parse_object2 ''iv'' ''ciphertext'',
      json_stringify_keys = (\<lambda>v. js_of_string (json_object2 ''privateKey'' ''publicKey'' v)),
      json_parse_keys = (\<lambda>s. parse_object2 ''privateKey'' ''publicKey'' (string_of_js s))\<rparr>"

definition counting_rng :: rng where
  "counting_rng = \<lparr>entropy = of_nat, drawn = 0\<rparr>"

definition zero_rng :: rng where
  "zero_rng = \<lparr>entropy = (\<lambda>_. 0), drawn = 0\<rparr>"

definition fresh_vault :: "byte secure_storage" where
  "fresh_vault = \<lparr>masterKey = None, salt = None, initialized = False, localStorage = Map.empty,
                  vault_random = counting_rng\<rparr>"

definition alice_keys :: "(byte, byte) key_manager" where
  "alice_keys = \<lparr>keyPair = Some 7, sharedKeys = [''bob'' \<mapsto> 42]\<rparr>"

definition offline_client :: "(byte, byte) secure_socket_client" where
  "offline_client =
     \<lparr>socket = False, isConnected = False, messageQueue = [], keyManager = alice_keys,
      wire = [], client_random = counting_rng\<rparr>"

definition send_to_carol :: "send_request list" where
  "send_to_carol =
     [\<lparr>sr_recipientId = ''carol'', sr_content = js_of_string ''hello'', sr_chatId = ''c2'',
       sr_messageId = ''id-0'', sr_now = 50\<rparr>]"

definition three_sends :: "send_request list" where
  "three_sends =
     [\<lparr>sr_recipientId = ''bob'', sr_content = js_of_string ''one'', sr_chatId = ''c1'',
       sr_messageId = ''id-1'', sr_now = 100\<rparr>,
      \<lparr>sr_recipientId = ''bob'', sr_content = js_of_string ''two'', sr_chatId = ''c1'',
       sr_messageId = ''id-2'', sr_now = 200\<rparr>,
      \<lparr>sr_recipientId = ''bob'', sr_content = js_of_string ''three'', sr_chatId = ''c1'',
       sr_messageId = ''id-3'', sr_now = 300\<rparr>]"

definition created_vault :: "byte secure_storage" where
  "created_vault = snd (initialize toy_platform fresh_vault (js_of_string ''pw'') True)"

definition created_salt :: "byte list" where
  "created_salt = fst (generateSalt counting_rng)"

definition salt_only_vault :: "byte secure_storage" where
  "salt_only_vault =
     fresh_vault\<lparr>localStorage := [STORAGE_KEY_PREFIX @ ''salt'' \<mapsto> arrayBufferToBase64 [1, 2, 3]]\<rparr>"

definition online_client :: "(byte, byte) secure_socket_client" where
  "online_client = on_connect (connect offline_client)"

definition late_response :: public_key_event where
  "late_response =
     \<lparr>pk_arrival = 1500, pk_established = 1502, pk_userId = ''carol'', pk_publicKey = ''AQID''\<rparr>"

section \<open>Server: properties\<close>

lemma updateMessageStatus_hit:
  assumes "db mid = Some m" and "recipientId m = Some uid"
  shows "updateMessageStatus db mid st uid now = (db(mid \<mapsto> updateData st now m), 1)"
  using assms by (simp add: updateMessageStatus_def)

lemma status_updateData: "status (updateData st now m) = st"
  by (simp add: updateData_def)

lemma recipientId_updateData: "recipientId (updateData st now m) = recipientId m"
  by (simp add: updateData_def)

text \<open>
  Claim C1, as stated, fails: on a message of status read, a delivered update for its
  recipient stores delivered, which is a step backward in the order of statuses.
\<close>

theorem updateMessageStatus_regresses:
  "let db1 = fst (updateMessageStatus example_table ''m1'' ''delivered'' ''bob'' 10);
       db2 = fst (updateMessageStatus db1 ''m1'' ''read'' ''bob'' 20);
       db3 = fst (updateMessageStatus db2 ''m1'' ''delivered'' ''bob'' 30)
   in map_option status (db2 ''m1'') = Some ''read''
      \<and> map_option status (db3 ''m1'') = Some ''delivered''
      \<and> status_before ''delivered'' ''read''"
  by (simp add: updateMessageStatus_def updateData_def example_table_def created_message_def
      status_before_def status_rank_def Let_def)

text \<open>
  Claim C1, amended: \<open>updateMessageStatus\<close> overwrites. For a message whose recipient is
  the caller, the stored status after the call is the status passed, whatever was stored
  before, and the other rows are untouched. So read after delivered leaves read, and a
  later delivered stores delivered again.
\<close>

theorem updateMessageStatus_overwrites:
  assumes "db mid = Some m" and "recipientId m = Some uid"
  shows "map_option status (fst (updateMessageStatus db mid st uid now) mid) = Some st
    \<and> (\<forall>other. other \<noteq> mid \<longrightarrow> fst (updateMessageStatus db mid st uid now) other = db other)
    \<and> map_option status
        (fst (updateMessageStatus (fst (updateMessageStatus db mid ''delivered'' uid now))
               mid ''read'' uid now') mid) = Some ''read''"
proof -
  let ?d = "updateData ''delivered'' now m"
  have one: "\<And>s t. updateMessageStatus db mid s uid t = (db(mid \<mapsto> updateData s t m), 1)"
    using assms by (rule updateMessageStatus_hit)
  have two: "updateMessageStatus (db(mid \<mapsto> ?d)) mid ''read'' uid now'
      = ((db(mid \<mapsto> ?d))(mid \<mapsto> updateData ''read'' now' ?d), 1)"
    by (rule updateMessageStatus_hit) (simp_all add: recipientId_updateData assms)
  show ?thesis
    by (simp add: one two status_updateData)
qed

theorem updateMessageStatus_overwrites_witness:
  "map_option status
     (fst (updateMessageStatus example_table ''m1'' ''read'' ''bob'' 5) ''m1'') = Some ''read''
   \<and> fst (updateMessageStatus example_table ''m1'' ''read'' ''bob'' 5) ''m2'' = None"
proof -
  have a: "example_table ''m1'' = Some (created_message ''c1'' ''alice'' ''bob'')"
    by (simp add: example_table_def)
  have b: "recipientId (created_message ''c1'' ''alice'' ''bob'') = Some ''bob''"
    by (simp add: created_message_def)
  have c: "example_table ''m2'' = None"
    by (simp add: example_table_def)
  show ?thesis
    using updateMessageStatus_overwrites [where db = example_table and mid = "''m1''"
        and uid = "''bob''" and st = "''read''" and now = 5 and now' = 5, OF a b] c
    by simp
qed

text \<open>
  Claim C8: \<open>editMessage\<close> and \<open>deleteMessage\<close> succeed only for the sender of an existing
  message (\<open>editMessage\<close> only if it is not deleted); for any other caller, and for a
  message that does not exist, they fail with the error "Message not found or
  unauthorized"; an edit of a deleted message fails too; and every failure leaves the
  table as it was.
\<close>

theorem edit_delete_sender_only:
  "(\<not> isl (fst (editMessage db mid caller c i now))
      \<longrightarrow> (\<exists>m. db mid = Some m \<and> senderId m = caller \<and> \<not> isDeleted m))
   \<and> (\<not> isl (fst (deleteMessage db mid caller now))
      \<longrightarrow> (\<exists>m. db mid = Some m \<and> senderId m = caller))
   \<and> ((\<forall>m. db mid = Some m \<longrightarrow> senderId m \<noteq> caller)
      \<longrightarrow> editMessage db mid caller c i now = (Inl NotFoundOrUnauthorized, db)
        \<and> deleteMessage db mid caller now = (Inl NotFoundOrUnauthorized, db))
   \<and> ((\<exists>m. db mid = Some m \<and> isDeleted m) \<longrightarrow> isl (fst (editMessage db mid caller c i now)))
   \<and> (isl (fst (editMessage db mid caller c i now))
      \<longrightarrow> snd (editMessage db mid caller c i now) = db)
   \<and> (isl (fst (deleteMessage db mid caller now))
      \<longrightarrow> snd (deleteMessage db mid caller now) = db)"
  by (cases "db mid") (auto simp: editMessage_def deleteMessage_def Let_def)

theorem edit_delete_sender_only_witness:
  "editMessage example_table ''m1'' ''bob'' ''eA=='' ''eQ=='' 7 = (Inl NotFoundOrUnauthorized, example_table)
   \<and> deleteMessage example_table ''m1'' ''bob'' 7 = (Inl NotFoundOrUnauthorized, example_table)
   \<and> \<not> isl (fst (editMessage example_table ''m1'' ''alice'' ''eA=='' ''eQ=='' 7))
   \<and> \<not> isl (fst (deleteMessage example_table ''m1'' ''alice'' 7))
   \<and> isl (fst (editMessage (snd (deleteMessage example_table ''m1'' ''alice'' 7))
                 ''m1'' ''alice'' ''eA=='' ''eQ=='' 8))"
proof -
  have a: "\<forall>m. example_table ''m1'' = Some m \<longrightarrow> senderId m \<noteq> ''bob''"
    by (simp add: example_table_def created_message_def)
  have b: "\<not> isl (fst (editMessage example_table ''m1'' ''alice'' ''eA=='' ''eQ=='' 7))"
    by (simp add: editMessage_def example_table_def created_message_def Let_def)
  have c: "\<not> isl (fst (deleteMessage example_table ''m1'' ''alice'' 7))"
    by (simp add: deleteMessage_def example_table_def created_message_def Let_def)
  have d: "\<exists>m. snd (deleteMessage example_table ''m1'' ''alice'' 7) ''m1'' = Some m \<and> isDeleted m"
    by (simp add: deleteMessage_def example_table_def created_message_def Let_def)
  show ?thesis
    using edit_delete_sender_only [of example_table "''m1''" "''bob''" "''eA==''" "''eQ==''" 7]
      edit_delete_sender_only [of "snd (deleteMessage example_table ''m1'' ''alice'' 7)"
        "''m1''" "''alice''" "''eA==''" "''eQ==''" 8]
      a b c d
    by blast
qed

section \<open>Base64 round trip\<close>

lemma b64_index_char: "n < 64 \<Longrightarrow> b64_index (b64_char n) = Some n"
  by (auto simp: b64_index_def b64_char_def Let_def)

lemma b64_index_plain:
  "b64_index c = Some n \<Longrightarrow> c \<noteq> CHR ''='' \<and> \<not> is_ascii_whitespace c"
  by (auto simp: b64_index_def is_ascii_whitespace_def Let_def split: if_splits)

lemma b64_char_plain:
  "n < 64 \<Longrightarrow> b64_char n \<noteq> CHR ''='' \<and> \<not> is_ascii_whitespace (b64_char n)"
  using b64_index_plain [OF b64_index_char] by blast

lemma unat_byte_lt: "unat (a :: byte) < 256"
  using unsigned_less [of a, where 'a = nat] by simp

lemma sextets_lt: "s \<in> set (sextets bs) \<Longrightarrow> s < 64"
proof (induction bs arbitrary: s rule: sextets.induct)
  case (1 a b c rest)
  have "unat a < 256" "unat b < 256" "unat c < 256" by (rule unat_byte_lt)+
  with 1 show ?case by auto
next
  case (2 a b)
  have "unat a < 256" "unat b < 256" by (rule unat_byte_lt)+
  with 2 show ?case by auto
next
  case (3 a)
  have "unat a < 256" by (rule unat_byte_lt)
  with 3 show ?case by auto
qed simp

lemma of_nat_is: "x = unat (a :: byte) \<Longrightarrow> of_nat x = a"
  by simp

lemma unsextets_sextets: "unsextets (sextets bs) = bs"
proof (induction bs rule: sextets.induct)
  case (1 a b c rest)
  have "unat a < 256" "unat b < 256" "unat c < 256" by (rule unat_byte_lt)+
  then have "unat a div 4 * 4 + (unat a mod 4 * 16 + unat b div 16) div 16 = unat a"
    "(unat a mod 4 * 16 + unat b div 16) mod 16 * 16 + (unat b mod 16 * 4 + unat c div 64) div 4 = unat b"
    "(unat b mod 16 * 4 + unat c div 64) mod 4 * 64 + unat c mod 64 = unat c"
    by simp_all
  with 1 show ?case by (simp add: of_nat_is)
next
  case (2 a b)
  have "unat a < 256" "unat b < 256" by (rule unat_byte_lt)+
  then have "unat a div 4 * 4 + (unat a mod 4 * 16 + unat b div 16) div 16 = unat a"
    "(unat a mod 4 * 16 + unat b div 16) mod 16 * 16 + (unat b mod 16 * 4) div 4 = unat b"
    by simp_all
  then show ?case by (simp add: of_nat_is)
next
  case (3 a)
  have "unat a < 256" by (rule unat_byte_lt)
  then have "unat a div 4 * 4 + (unat a mod 4 * 16) div 16 = unat a"
    by simp
  then show ?case by (simp add: of_nat_is)
qed simp

lemma length_sextets:
  "length (sextets bs) mod 4 \<noteq> 1
   \<and> (length (sextets bs) + (3 - length bs mod 3) mod 3) mod 4 = 0
   \<and> (sextets bs = [] \<longrightarrow> bs = [])"
proof (induction bs rule: sextets.induct)
  case (1 a b c rest)
  have "\<And>n. Suc (Suc (Suc n)) mod 3 = n mod 3" "\<And>n. Suc (Suc (Suc (Suc n))) mod 4 = n mod 4"
    by presburger+
  with 1 show ?case by simp
qed simp_all

lemma those_map_index: "\<forall>s\<in>set ss. s < 64 \<Longrightarrow> those (map b64_index (map b64_char ss)) = Some ss"
  by (induction ss) (simp_all add: b64_index_char)

lemma filter_body: "\<forall>s\<in>set ss. s < 64 \<Longrightarrow>
    filter (\<lambda>c. \<not> is_ascii_whitespace c) (map b64_char ss @ replicate p CHR ''='')
      = map b64_char ss @ replicate p CHR ''=''"
proof (induction ss)
  case Nil
  have "\<not> is_ascii_whitespace CHR ''=''" by (simp add: is_ascii_whitespace_def)
  then show ?case by simp
next
  case (Cons s ss)
  then show ?case by (simp add: b64_char_plain)
qed

lemma last_body_ok:
  assumes "\<forall>s\<in>set ss. s < 64" and "ss \<noteq> []"
  shows "last (map b64_char ss) \<noteq> CHR ''=''"
proof -
  have "last ss \<in> set ss" using assms(2) by simp
  then have "last ss < 64" using assms(1) by blast
  then show ?thesis using b64_char_plain assms(2) by (simp add: last_map)
qed

lemma strip_padding_0:
  assumes "\<forall>s\<in>set ss. s < 64"
  shows "strip_padding (map b64_char ss) = map b64_char ss"
proof (cases "ss = []")
  case True
  then show ?thesis by (simp add: strip_padding_def)
next
  case False
  then show ?thesis using last_body_ok [OF assms False] by (simp add: strip_padding_def)
qed

lemma strip_padding_1:
  assumes "\<forall>s\<in>set ss. s < 64" and "ss \<noteq> []" and "Suc (length ss) mod 4 = 0"
  shows "strip_padding (map b64_char ss @ [CHR ''='']) = map b64_char ss"
  using last_body_ok [OF assms(1,2)] assms(2,3) by (simp add: strip_padding_def)

lemma strip_padding_2:
  assumes "Suc (Suc (length ss)) mod 4 = 0"
  shows "strip_padding (map b64_char ss @ [CHR ''='', CHR ''='']) = map b64_char ss"
  using assms by (simp add: strip_padding_def butlast_append)

lemma pad_cases:
  "(3 - (n::nat) mod 3) mod 3 = (if n mod 3 = 0 then 0 else if n mod 3 = 1 then 2 else 1)"
proof -
  have "n mod 3 < 3" by simp
  then consider "n mod 3 = 0" | "n mod 3 = 1" | "n mod 3 = 2" by linarith
  then show ?thesis by cases simp_all
qed

lemma strip_padding_btoa: "strip_padding (btoa bs) = map b64_char (sextets bs)"
proof -
  let ?ss = "sextets bs"
  define p where "p = (3 - length bs mod 3) mod 3"
  have b: "btoa bs = map b64_char ?ss @ replicate p CHR ''=''"
    by (simp add: btoa_def p_def)
  have lt: "\<forall>s\<in>set ?ss. s < 64" using sextets_lt by blast
  have len: "(length ?ss + p) mod 4 = 0" unfolding p_def using length_sextets [of bs] by blast
  have ne: "?ss = [] \<longrightarrow> bs = []" using length_sextets [of bs] by blast
  have p0: "bs = [] \<longrightarrow> p = 0" by (simp add: p_def)
  have "p = 0 \<or> p = 1 \<or> p = 2" unfolding p_def pad_cases by simp
  then show ?thesis
  proof (elim disjE)
    assume 1: "p = 0"
    show ?thesis unfolding b 1 using strip_padding_0 [OF lt] by simp
  next
    assume 2: "p = 1"
    have "?ss \<noteq> []" using ne p0 2 by fastforce
    moreover have "Suc (length ?ss) mod 4 = 0" using len unfolding 2 by simp
    ultimately show ?thesis unfolding b 2 using strip_padding_1 [OF lt] by simp
  next
    assume 3: "p = 2"
    have r: "replicate 2 CHR ''='' = [CHR ''='', CHR ''='']" by (simp add: numeral_2_eq_2)
    have "Suc (Suc (length ?ss)) mod 4 = 0" using len unfolding 3 by simp
    then show ?thesis unfolding b 3 r using strip_padding_2 [of ?ss] by simp
  qed
qed

lemma filter_btoa: "filter (\<lambda>c. \<not> is_ascii_whitespace c) (btoa bs) = btoa bs"
proof -
  have "\<forall>s\<in>set (sextets bs). s < 64" using sextets_lt by blast
  then show ?thesis unfolding btoa_def by (rule filter_body)
qed

theorem atob_btoa: "atob (btoa bs) = Some bs"
proof -
  have lt: "\<forall>s\<in>set (sextets bs). s < 64" using sextets_lt by blast
  have l1: "length (sextets bs) mod 4 \<noteq> 1" using length_sextets [of bs] by blast
  have "atob (btoa bs) = map_option unsextets (those (map b64_index (map b64_char (sextets bs))))"
    unfolding atob_def Let_def filter_btoa strip_padding_btoa using l1 by simp
  also have "\<dots> = Some bs"
    unfolding those_map_index [OF lt] by (simp add: unsextets_sextets)
  finally show ?thesis .
qed

lemma btoa_inj: "btoa a = btoa b \<Longrightarrow> a = b"
proof -
  assume "btoa a = btoa b"
  then have "atob (btoa a) = atob (btoa b)" by (rule arg_cong)
  then show "a = b" unfolding atob_btoa by simp
qed

lemma base64_round_trip: "base64ToArrayBuffer (arrayBufferToBase64 bs) = Inr bs"
  by (simp add: base64ToArrayBuffer_def arrayBufferToBase64_def atob_btoa)

lemma arrayBufferToBase64_inj: "arrayBufferToBase64 a = arrayBufferToBase64 b \<Longrightarrow> a = b"
  unfolding arrayBufferToBase64_def by (rule btoa_inj)

section \<open>Text codec round trip\<close>

lemma unat_byte: "n < 256 \<Longrightarrow> unat (of_nat n :: byte) = n"
  by (simp add: unat_of_nat)

lemma unat_unit: "n < 65536 \<Longrightarrow> unat (of_nat n :: 16 word) = n"
  by (simp add: unat_of_nat)

lemma decode_1:
  assumes "cp < 0x80"
  shows "utf8_decode (utf8_encode_scalar cp @ rest) = cp # utf8_decode rest"
  using assms by (simp add: utf8_encode_scalar_def unat_byte)

lemma decode_2:
  assumes "0x80 \<le> cp" "cp < 0x800"
  shows "utf8_decode (utf8_encode_scalar cp @ rest) = cp # utf8_decode rest"
proof -
  define b0 where "b0 = 0xC0 + cp div 0x40"
  define b1 where "b1 = 0x80 + cp mod 0x40"
  have r: "0xC2 \<le> b0" "b0 \<le> 0xDF" "0x80 \<le> b1" "b1 \<le> 0xBF" "b0 < 256" "b1 < 256"
    using assms by (simp_all add: b0_def b1_def)
  have v: "(b0 - 0xC0) * 0x40 + (b1 - 0x80) = cp"
    by (simp add: b0_def b1_def)
  have e: "utf8_encode_scalar cp = [of_nat b0, of_nat b1]"
    using assms by (simp add: utf8_encode_scalar_def b0_def b1_def)
  show ?thesis
    unfolding e using r v by (simp add: unat_byte in_range_def)
qed

lemma decode_3:
  assumes "0x800 \<le> cp" "cp < 0x10000" "\<not> (0xD800 \<le> cp \<and> cp \<le> 0xDFFF)"
  shows "utf8_decode (utf8_encode_scalar cp @ rest) = cp # utf8_decode rest"
proof -
  define r where "r = cp mod 64"
  define q where "q = cp div 64"
  define r1 where "r1 = q mod 64"
  define q1 where "q1 = q div 64"
  have cp: "cp = q * 64 + r" "r < 64" by (simp_all add: q_def r_def)
  have qq: "q = q1 * 64 + r1" "r1 < 64" by (simp_all add: q1_def r1_def)
  have d: "cp div 0x1000 = q1" "cp div 0x40 mod 0x40 = r1" "cp mod 0x40 = r"
    by (simp_all add: q1_def q_def r1_def r_def div_mult2_eq [symmetric])
  define b0 where "b0 = 0xE0 + q1"
  define b1 where "b1 = 0x80 + r1"
  define b2 where "b2 = 0x80 + r"
  have r0: "0xE0 \<le> b0" "b0 \<le> 0xEF" "b0 < 256"
    unfolding b0_def using assms cp qq by linarith+
  have r1: "0x80 \<le> b1" "b1 \<le> 0xBF" "b1 < 256" "0x80 \<le> b2" "b2 \<le> 0xBF" "b2 < 256"
    unfolding b1_def b2_def using cp qq by linarith+
  have lo: "b0 = 0xE0 \<longrightarrow> 0xA0 \<le> b1"
    unfolding b0_def b1_def using assms cp qq by linarith
  have hi: "b0 = 0xED \<longrightarrow> b1 \<le> 0x9F"
    unfolding b0_def b1_def using assms cp qq by linarith
  have v: "(b0 - 0xE0) * 0x1000 + (b1 - 0x80) * 0x40 + (b2 - 0x80) = cp"
    unfolding b0_def b1_def b2_def using cp qq by simp
  have e: "utf8_encode_scalar cp = [of_nat b0, of_nat b1, of_nat b2]"
    using assms by (simp add: utf8_encode_scalar_def d b0_def b1_def b2_def)
  show ?thesis
    unfolding e using r0 r1 lo hi v by (simp add: unat_byte in_range_def)
qed

lemma decode_4:
  assumes "0x10000 \<le> cp" "cp < 0x110000"
  shows "utf8_decode (utf8_encode_scalar cp @ rest) = cp # utf8_decode rest"
proof -
  define r where "r = cp mod 64"
  define q where "q = cp div 64"
  define r1 where "r1 = q mod 64"
  define q1 where "q1 = q div 64"
  define r2 where "r2 = q1 mod 64"
  define q2 where "q2 = q1 div 64"
  have cp: "cp = q * 64 + r" "r < 64" by (simp_all add: q_def r_def)
  have qq: "q = q1 * 64 + r1" "r1 < 64" by (simp_all add: q1_def r1_def)
  have qqq: "q1 = q2 * 64 + r2" "r2 < 64" by (simp_all add: q2_def r2_def)
  have d: "cp div 0x40000 = q2" "cp div 0x1000 mod 0x40 = r2" "cp div 0x40 mod 0x40 = r1"
    "cp mod 0x40 = r"
    by (simp_all add: q2_def r2_def q1_def q_def r1_def r_def div_mult2_eq [symmetric])
  define b0 where "b0 = 0xF0 + q2"
  define b1 where "b1 = 0x80 + r2"
  define b2 where "b2 = 0x80 + r1"
  define b3 where "b3 = 0x80 + r"
  have r0: "0xF0 \<le> b0" "b0 \<le> 0xF4" "b0 < 256"
    unfolding b0_def using assms cp qq qqq by linarith+
  have r1: "0x80 \<le> b1" "b1 \<le> 0xBF" "b1 < 256" "0x80 \<le> b2" "b2 \<le> 0xBF" "b2 < 256"
    "0x80 \<le> b3" "b3 \<le> 0xBF" "b3 < 256"
    unfolding b1_def b2_def b3_def using cp qq qqq by linarith+
  have lo: "b0 = 0xF0 \<longrightarrow> 0x90 \<le> b1"
    unfolding b0_def b1_def using assms cp qq qqq by linarith
  have hi: "b0 = 0xF4 \<longrightarrow> b1 \<le> 0x8F"
    unfolding b0_def b1_def using assms cp qq qqq by linarith
  have v: "(b0 - 0xF0) * 0x40000 + (b1 - 0x80) * 0x1000 + (b2 - 0x80) * 0x40 + (b3 - 0x80) = cp"
    unfolding b0_def b1_def b2_def b3_def using cp qq qqq by simp
  have e: "utf8_encode_scalar cp = [of_nat b0, of_nat b1, of_nat b2, of_nat b3]"
    using assms by (simp add: utf8_encode_scalar_def d b0_def b1_def b2_def b3_def)
  show ?thesis
    unfolding e using r0 r1 lo hi v by (simp add: unat_byte in_range_def)
qed

lemma utf8_decode_encode_scalar:
  assumes "is_scalar cp"
  shows "utf8_decode (utf8_encode_scalar cp @ rest) = cp # utf8_decode rest"
proof -
  consider "cp < 0x80" | "0x80 \<le> cp \<and> cp < 0x800" | "0x800 \<le> cp \<and> cp < 0x10000"
    | "0x10000 \<le> cp" by linarith
  then show ?thesis
  proof cases
    case 1 then show ?thesis by (rule decode_1)
  next
    case 2 then show ?thesis using decode_2 by blast
  next
    case 3 then show ?thesis using decode_3 assms by (simp add: is_scalar_def)
  next
    case 4 then show ?thesis using decode_4 assms by (simp add: is_scalar_def)
  qed
qed

lemma utf8_decode_encode_list:
  "\<forall>cp\<in>set cps. is_scalar cp \<Longrightarrow> utf8_decode (concat (map utf8_encode_scalar cps)) = cps"
  by (induction cps) (simp_all add: utf8_decode_encode_scalar)

lemma of_nat_unat_unit: "x = unat (c :: 16 word) \<Longrightarrow> of_nat x = c"
  by simp

lemma pair_scalar:
  assumes "is_lead_surrogate (unat c)" "is_trail_surrogate (unat d)"
  shows "is_scalar (0x10000 + (unat c - 0xD800) * 0x400 + (unat d - 0xDC00))"
    and "utf16_encode_scalar (0x10000 + (unat c - 0xD800) * 0x400 + (unat d - 0xDC00)) = [c, d]"
proof -
  define h where "h = unat c - 0xD800"
  define l where "l = unat d - 0xDC00"
  have hl: "h < 0x400" "l < 0x400" "unat c = 0xD800 + h" "unat d = 0xDC00 + l"
    using assms unfolding h_def l_def is_lead_surrogate_def is_trail_surrogate_def
    by linarith+
  have dm: "(h * 0x400 + l) div 0x400 = h" "(h * 0x400 + l) mod 0x400 = l"
    using hl by simp_all
  show "is_scalar (0x10000 + (unat c - 0xD800) * 0x400 + (unat d - 0xDC00))"
    unfolding h_def [symmetric] l_def [symmetric] is_scalar_def using hl by linarith
  have "utf16_encode_scalar (0x10000 + h * 0x400 + l) = [of_nat (0xD800 + h), of_nat (0xDC00 + l)]"
    unfolding utf16_encode_scalar_def using dm by (simp add: add.assoc)
  also have "\<dots> = [c, d]"
    using hl(3,4) by (simp only: of_nat_unat_unit [OF sym])
  finally show "utf16_encode_scalar (0x10000 + (unat c - 0xD800) * 0x400 + (unat d - 0xDC00)) = [c, d]"
    unfolding h_def l_def .
qed

lemma unit_scalar:
  assumes "\<not> is_lead_surrogate (unat c)" "\<not> is_trail_surrogate (unat c)"
  shows "is_scalar (unat c)" and "utf16_encode_scalar (unat c) = [c]"
proof -
  have lt: "unat c < 65536" using unsigned_less [of c, where 'a = nat] by simp
  show "is_scalar (unat c)"
    using assms lt unfolding is_scalar_def is_lead_surrogate_def is_trail_surrogate_def
    by linarith
  show "utf16_encode_scalar (unat c) = [c]"
    using lt by (simp add: utf16_encode_scalar_def)
qed

lemma to_scalars_well_formed:
  "well_formed s \<Longrightarrow>
     (\<forall>cp\<in>set (to_scalars s). is_scalar cp)
     \<and> concat (map utf16_encode_scalar (to_scalars s)) = s"
proof (induction s rule: well_formed.induct)
  case 1
  then show ?case by simp
next
  case (2 c cs)
  show ?case
  proof (cases "is_lead_surrogate (unat c)")
    case True
    with "2.prems" obtain d ds where cs: "cs = d # ds" and d: "is_trail_surrogate (unat d)"
      and wf: "well_formed ds"
      by (auto split: list.splits)
    have ih: "(\<forall>cp\<in>set (to_scalars ds). is_scalar cp)
       \<and> concat (map utf16_encode_scalar (to_scalars ds)) = ds"
      using "2.IH"(1) [OF True cs] wf by blast
    show ?thesis
      using True d ih pair_scalar [OF True d] by (simp add: cs)
  next
    case False
    with "2.prems" have nt: "\<not> is_trail_surrogate (unat c)" and wf: "well_formed cs"
      by auto
    have ih: "(\<forall>cp\<in>set (to_scalars cs). is_scalar cp)
       \<and> concat (map utf16_encode_scalar (to_scalars cs)) = cs"
      using "2.IH"(2) [OF False] wf by blast
    show ?thesis
      using False nt ih unit_scalar [OF False nt] by simp
  qed
qed

lemma strip_bom_to_scalars:
  "\<not> starts_with_bom s \<Longrightarrow> strip_bom (to_scalars s) = to_scalars s"
proof (cases s)
  case Nil
  then show ?thesis by (simp add: strip_bom_def)
next
  case (Cons c cs)
  assume "\<not> starts_with_bom s"
  then have "unat c \<noteq> 0xFEFF" using Cons
    by (auto simp: starts_with_bom_def word_unat_eq_iff)
  then show ?thesis using Cons
    by (auto simp: strip_bom_def is_lead_surrogate_def is_trail_surrogate_def split: list.splits)
qed

theorem text_codec_round_trip:
  assumes "well_formed s" and "\<not> starts_with_bom s"
  shows "TextDecoder_decode (TextEncoder_encode s) = s"
  using to_scalars_well_formed [OF assms(1)] strip_bom_to_scalars [OF assms(2)]
  by (simp add: TextDecoder_decode_def TextEncoder_encode_def utf8_decode_encode_list)

lemma text_codec_drops_bom:
  assumes "well_formed P"
  shows "TextDecoder_decode (TextEncoder_encode (0xFEFF # P)) = P"
proof -
  have s: "to_scalars (0xFEFF # P) = 0xFEFF # to_scalars P"
    by (simp add: is_lead_surrogate_def is_trail_surrogate_def)
  have sc: "\<forall>cp\<in>set (0xFEFF # to_scalars P). is_scalar cp"
    using to_scalars_well_formed [OF assms] by (simp add: is_scalar_def)
  have d: "utf8_decode (TextEncoder_encode (0xFEFF # P)) = 0xFEFF # to_scalars P"
    unfolding TextEncoder_encode_def s using sc by (rule utf8_decode_encode_list)
  show ?thesis
    unfolding TextDecoder_decode_def d using to_scalars_well_formed [OF assms]
    by (simp add: strip_bom_def)
qed

section \<open>The example platform\<close>

lemma checksum_Cons: "checksum (b # bs) = b XOR checksum bs"
  by (simp add: checksum_def)

lemma checksum_append: "checksum (a @ b) = checksum a XOR checksum b"
  by (induction a) (simp_all add: checksum_Cons xor.assoc, simp add: checksum_def)

lemma checksum_update:
  "j < length xs \<Longrightarrow> checksum (xs[j := xs ! j XOR d]) = checksum xs XOR d"
proof (induction xs arbitrary: j)
  case Nil
  then show ?case by simp
next
  case (Cons x xs)
  show ?case
  proof (cases j)
    case 0
    then show ?thesis by (simp add: checksum_Cons ac_simps)
  next
    case (Suc n)
    then have "n < length xs" using Cons.prems by simp
    then show ?thesis using Suc Cons.IH [of n] by (simp add: checksum_Cons xor.assoc)
  qed
qed

lemma one_bit_nonzero: "push_bit (i mod 8) (1 :: byte) \<noteq> 0"
proof -
  have "i mod 8 < 8" by simp
  then have "bit (push_bit (i mod 8) (1 :: byte)) (i mod 8)"
    by (simp add: bit_simps)
  then show ?thesis by auto
qed

lemma xor_nonzero_neq: "d \<noteq> 0 \<Longrightarrow> (t :: byte) XOR d = t \<Longrightarrow> False"
proof -
  assume d: "d \<noteq> 0" and e: "t XOR d = t"
  have "d = (t XOR t) XOR d" by simp
  also have "\<dots> = t XOR (t XOR d)" by (simp only: xor.assoc)
  also have "\<dots> = 0" by (simp add: e)
  finally show False using d by simp
qed

lemma toy_encrypt_eq:
  "toy_encrypt k ivb p
     = map (\<lambda>b. b XOR k) p @ replicate 16 (k XOR checksum (ivb @ map (\<lambda>b. b XOR k) p))"
  by (simp add: toy_encrypt_def toy_tag_def Let_def)

lemma toy_decrypt_append:
  assumes "length tg = 16"
  shows "toy_decrypt k ivb (body @ tg)
     = (if tg = replicate 16 (k XOR checksum (ivb @ body))
        then Some (map (\<lambda>b. b XOR k) body) else None)"
  using assms by (simp add: toy_decrypt_def toy_tag_def Let_def)

lemma xor_cancel_right: "(a :: byte) XOR c = b XOR c \<Longrightarrow> a = b"
proof -
  assume e: "a XOR c = b XOR c"
  have "a = (a XOR c) XOR c" by (simp add: xor.assoc)
  also have "\<dots> = (b XOR c) XOR c" by (simp only: e)
  also have "\<dots> = b" by (simp add: xor.assoc)
  finally show ?thesis .
qed

lemma toy_wrong_key:
  assumes "k' \<noteq> k"
  shows "toy_decrypt k' ivb (toy_encrypt k ivb p) = None"
proof -
  let ?c = "checksum (ivb @ map (\<lambda>b. b XOR k) p)"
  have "k XOR ?c \<noteq> k' XOR ?c" using assms xor_cancel_right by blast
  then have "replicate 16 (k XOR ?c) \<noteq> replicate 16 (k' XOR ?c)"
    by (simp add: replicate_eq_replicate)
  then show ?thesis
    unfolding toy_encrypt_eq by (simp add: toy_decrypt_append)
qed

lemma tamper_body_general:
  assumes "j < length body" and "d \<noteq> 0"
  shows "toy_decrypt k ivb
           ((body @ replicate 16 (k XOR checksum (ivb @ body)))
              [j := (body @ replicate 16 (k XOR checksum (ivb @ body))) ! j XOR d]) = None"
proof -
  let ?t = "k XOR checksum (ivb @ body)"
  have upd: "(body @ replicate 16 ?t)[j := (body @ replicate 16 ?t) ! j XOR d]
      = body[j := body ! j XOR d] @ replicate 16 ?t"
    using assms(1) by (simp add: list_update_append nth_append)
  have "checksum (ivb @ body[j := body ! j XOR d]) = checksum (ivb @ body) XOR d"
    using assms(1) by (simp add: checksum_append checksum_update xor.assoc)
  then have "k XOR checksum (ivb @ body[j := body ! j XOR d]) = ?t XOR d"
    by (simp add: xor.assoc)
  then have t': "?t \<noteq> k XOR checksum (ivb @ body[j := body ! j XOR d])"
    using xor_nonzero_neq [OF assms(2), of ?t] by metis
  show ?thesis
    unfolding upd using t' by (simp add: toy_decrypt_append replicate_eq_replicate)
qed

lemma toy_tamper_body:
  assumes "j < length p" and "d \<noteq> 0"
  shows "toy_decrypt k ivb ((toy_encrypt k ivb p)[j := toy_encrypt k ivb p ! j XOR d]) = None"
  unfolding toy_encrypt_eq using assms by (intro tamper_body_general) simp_all

lemma toy_tamper_tag:
  assumes "length p \<le> j" and "j < length p + 16" and "d \<noteq> 0"
  shows "toy_decrypt k ivb ((toy_encrypt k ivb p)[j := toy_encrypt k ivb p ! j XOR d]) = None"
proof -
  let ?body = "map (\<lambda>b. b XOR k) p"
  let ?t = "k XOR checksum (ivb @ ?body)"
  let ?tag = "replicate 16 ?t"
  have jl: "j - length p < 16" using assms by linarith
  have upd: "(?body @ ?tag)[j := (?body @ ?tag) ! j XOR d]
      = ?body @ ?tag[j - length p := ?t XOR d]"
    using assms(1) jl by (simp add: list_update_append nth_append)
  have "?tag[j - length p := ?t XOR d] ! (j - length p) = ?t XOR d"
    using jl by simp
  moreover have "?tag ! (j - length p) = ?t" using jl by simp
  ultimately have ne: "?tag[j - length p := ?t XOR d] \<noteq> ?tag"
    using xor_nonzero_neq [OF assms(3), of ?t] by metis
  show ?thesis
    unfolding toy_encrypt_eq upd using ne by (simp add: toy_decrypt_append)
qed

lemma toy_tamper_evident: "aead_tamper_evident toy_platform"
proof -
  have "toy_decrypt k ivb (flip_bit_at i (toy_encrypt k ivb p)) = None"
    if "i < 8 * length (toy_encrypt k ivb p)" for k ivb p i
  proof -
    have len: "length (toy_encrypt k ivb p) = length p + 16"
      by (simp add: toy_encrypt_eq)
    have j: "i div 8 < length p + 16" using that len by simp
    show ?thesis
    proof (cases "i div 8 < length p")
      case True
      then show ?thesis
        unfolding flip_bit_at_def by (rule toy_tamper_body) (rule one_bit_nonzero)
    next
      case False
      then have "length p \<le> i div 8" by simp
      then show ?thesis
        unfolding flip_bit_at_def using j by (rule toy_tamper_tag) (rule one_bit_nonzero)
    qed
  qed
  then show ?thesis
    by (simp add: aead_tamper_evident_def toy_platform_def)
qed

lemma toy_decrypt_encrypt: "toy_decrypt k ivb (toy_encrypt k ivb p) = Some p"
proof -
  have x: "map ((\<lambda>b. b XOR k) \<circ> (\<lambda>b. b XOR k)) p = p"
    by (induction p) (simp_all add: xor.assoc)
  show ?thesis
    by (simp add: toy_decrypt_def toy_encrypt_def toy_tag_def Let_def x)
qed

lemma toy_aead_correct: "aead_correct toy_platform"
  by (simp add: aead_correct_def toy_platform_def toy_decrypt_encrypt)

lemma alice_bob: "sharedKeys alice_keys ''bob'' = Some 42"
  by (simp add: alice_keys_def)

section \<open>Encryption and decryption for a peer\<close>

lemma encryptMessage_eq:
  "encryptMessage pf g P key =
     (\<lparr>em_ciphertext = arrayBufferToBase64
          (aes_gcm_encrypt pf key (iv_block g 0) (TextEncoder_encode P)),
       em_iv = arrayBufferToBase64 (iv_block g 0)\<rparr>,
      g\<lparr>drawn := drawn g + 12\<rparr>)"
  by (simp add: encryptMessage_def getRandomValues_def iv_block_def Let_def)

lemma encryptFor_channel:
  assumes "sharedKeys km peer = Some key"
  shows "encryptFor pf km g peer P =
     (Inr \<lparr>em_ciphertext = arrayBufferToBase64
              (aes_gcm_encrypt pf key (iv_block g 0) (TextEncoder_encode P)),
           em_iv = arrayBufferToBase64 (iv_block g 0)\<rparr>,
      g\<lparr>drawn := drawn g + 12\<rparr>)"
  using assms by (simp add: encryptFor_def encryptMessage_eq)

lemma decryptFrom_channel:
  assumes "sharedKeys km peer = Some key"
  shows "decryptFrom pf km peer (arrayBufferToBase64 ct) (arrayBufferToBase64 ivb) =
     (case aes_gcm_decrypt pf key ivb ct of
        None \<Rightarrow> Inl DecryptionFailed
      | Some d \<Rightarrow> Inr (TextDecoder_decode d))"
  using assms by (simp add: decryptFrom_def decryptMessage_def base64_round_trip)

lemma round_trip_decodes:
  assumes "aead_correct pf" and "sharedKeys km peer = Some key"
  shows "round_trip pf km g peer P = Inr (TextDecoder_decode (TextEncoder_encode P))"
proof -
  have "aes_gcm_decrypt pf key (iv_block g 0)
          (aes_gcm_encrypt pf key (iv_block g 0) (TextEncoder_encode P))
        = Some (TextEncoder_encode P)"
    using assms(1) by (simp add: aead_correct_def)
  then show ?thesis
    by (simp add: round_trip_def encryptFor_channel [OF assms(2)]
        decryptFrom_channel [OF assms(2)])
qed

lemma round_trip_drops_bom:
  assumes "aead_correct pf" and "sharedKeys km peer = Some key" and "well_formed P"
  shows "round_trip pf km g peer (0xFEFF # P) = Inr P"
  by (simp add: round_trip_decodes [OF assms(1,2)] text_codec_drops_bom [OF assms(3)])

text \<open>
  Claim C2, as stated for every plaintext, fails: \<open>TextDecoder\<close> drops a leading U+FEFF,
  so the plaintext U+FEFF "hi" comes back as "hi".
\<close>

theorem round_trip_strips_bom:
  "round_trip toy_platform alice_keys counting_rng ''bob'' [0xFEFF, 0x68, 0x69] = Inr [0x68, 0x69]"
proof -
  have "TextDecoder_decode (TextEncoder_encode [0xFEFF, 0x68, 0x69]) = [0x68, 0x69]"
    by (simp add: TextDecoder_decode_def TextEncoder_encode_def utf8_encode_scalar_def
        is_lead_surrogate_def is_trail_surrogate_def strip_bom_def utf16_encode_scalar_def
        in_range_def Let_def)
  then show ?thesis
    by (simp add: round_trip_decodes [OF toy_aead_correct alice_bob])
qed

text \<open>
  Claim C2, amended: for a peer with an established channel and a plaintext that is
  well-formed UTF-16 (no surrogate outside a pair) and does not start with U+FEFF,
  decrypting what \<open>encryptFor\<close> returns gives back the plaintext, whatever the random
  source yields for the IV.
\<close>

theorem encryption_round_trip:
  assumes "aead_correct pf" and "sharedKeys km peer = Some key"
    and "well_formed P" and "\<not> starts_with_bom P"
  shows "round_trip pf km g peer P = Inr P"
  by (simp add: round_trip_decodes [OF assms(1,2)] text_codec_round_trip [OF assms(3,4)])

theorem encryption_round_trip_witness:
  "round_trip toy_platform alice_keys counting_rng ''bob'' [0x68, 0xD83D, 0xDE00] = Inr [0x68, 0xD83D, 0xDE00]"
proof -
  have a: "well_formed [0x68, 0xD83D, 0xDE00]"
    by (simp add: is_lead_surrogate_def is_trail_surrogate_def)
  have b: "\<not> starts_with_bom [0x68, 0xD83D, 0xDE00]"
    by (simp add: starts_with_bom_def)
  show ?thesis
    using encryption_round_trip [OF toy_aead_correct alice_bob a b] .
qed

text \<open>
  Claim C3: for a ciphertext produced by \<open>encryptFor\<close> under an established channel,
  flipping any one bit of the ciphertext bytes, tag included, makes \<open>decryptFrom\<close> fail
  with the error "Decryption failed - message may have been tampered with"; no
  plaintext is returned. The bit is flipped in the bytes that the base64 text stands for.
\<close>

theorem tamper_detection:
  assumes "aead_tamper_evident pf" and "sharedKeys km peer = Some key"
    and "i < ciphertext_bits pf km g peer P"
  shows "tampered pf km g peer P i = Inl DecryptionFailed"
proof -
  let ?ct = "aes_gcm_encrypt pf key (iv_block g 0) (TextEncoder_encode P)"
  have "i < 8 * length ?ct"
    using assms(3)
    by (simp add: ciphertext_bits_def encryptFor_channel [OF assms(2)] base64_round_trip)
  then have "aes_gcm_decrypt pf key (iv_block g 0) (flip_bit_at i ?ct) = None"
    using assms(1) by (simp add: aead_tamper_evident_def)
  then show ?thesis
    by (simp add: tampered_def encryptFor_channel [OF assms(2)] base64_round_trip
        decryptFrom_channel [OF assms(2)])
qed

lemma toy_ciphertext_bits:
  "ciphertext_bits toy_platform alice_keys g ''bob'' P = 8 * (length (TextEncoder_encode P) + 16)"
  by (simp add: ciphertext_bits_def encryptFor_channel [OF alice_bob] base64_round_trip
      toy_platform_def toy_encrypt_eq)

theorem tamper_detection_witness:
  "tampered toy_platform alice_keys counting_rng ''bob'' [0x68, 0x69] 3 = Inl DecryptionFailed
   \<and> tampered toy_platform alice_keys counting_rng ''bob'' [0x68, 0x69] 143 = Inl DecryptionFailed"
proof -
  have e: "TextEncoder_encode [0x68, 0x69] = [0x68, 0x69]"
    by (simp add: TextEncoder_encode_def utf8_encode_scalar_def is_lead_surrogate_def
        is_trail_surrogate_def)
  have a: "3 < ciphertext_bits toy_platform alice_keys counting_rng ''bob'' [0x68, 0x69]"
    and b: "143 < ciphertext_bits toy_platform alice_keys counting_rng ''bob'' [0x68, 0x69]"
    by (simp_all add: toy_ciphertext_bits e)
  show ?thesis
    using tamper_detection [OF toy_tamper_evident alice_bob a]
      tamper_detection [OF toy_tamper_evident alice_bob b] by simp
qed

section \<open>Initialisation vectors\<close>

lemma iv_block_shift: "iv_block (g\<lparr>drawn := drawn g + 12\<rparr>) i = iv_block g (Suc i)"
  by (simp add: iv_block_def add.assoc)

lemma length_iv_block: "length (iv_block g i) = 12"
  by (simp add: iv_block_def)

lemma encryptForAll_ivs:
  assumes "sharedKeys km peer = Some key"
  shows "ivs_of (fst (encryptForAll pf km g peer Ps))
      = map (\<lambda>i. Inr (arrayBufferToBase64 (iv_block g i))) [0..<length Ps]"
proof (induction Ps arbitrary: g)
  case Nil
  then show ?case by (simp add: ivs_of_def)
next
  case (Cons P Ps)
  have "ivs_of (fst (encryptForAll pf km g peer (P # Ps)))
      = Inr (arrayBufferToBase64 (iv_block g 0))
          # ivs_of (fst (encryptForAll pf km (g\<lparr>drawn := drawn g + 12\<rparr>) peer Ps))"
    by (simp add: encryptFor_channel [OF assms] ivs_of_def split_beta)
  also have "\<dots> = Inr (arrayBufferToBase64 (iv_block g 0))
          # map (\<lambda>i. Inr (arrayBufferToBase64 (iv_block g (Suc i)))) [0..<length Ps]"
    by (simp add: Cons.IH iv_block_shift)
  also have "\<dots> = map (\<lambda>i. Inr (arrayBufferToBase64 (iv_block g i))) [0..<length (P # Ps)]"
    by (simp add: upt_conv_Cons map_Suc_upt [symmetric] del: upt_Suc)
  finally show ?case .
qed

lemma inj_iv_encoding: "inj (\<lambda>b. (Inr (arrayBufferToBase64 b) :: client_error + string))"
  by (rule injI) (simp add: arrayBufferToBase64_inj)

text \<open>
  Claim C4, as stated, fails in its second half: the IV is whatever the random source
  yields, so when the source yields the same 12 bytes twice, two calls return the same IV.
\<close>

theorem repeated_iv:
  "ivs_of (fst (encryptForAll toy_platform alice_keys zero_rng ''bob'' [[0x61], [0x62]]))
     = [Inr (arrayBufferToBase64 (replicate 12 0)), Inr (arrayBufferToBase64 (replicate 12 0))]
   \<and> \<not> distinct (ivs_of (fst (encryptForAll toy_platform alice_keys zero_rng ''bob''
                                [[0x61], [0x62]])))"
proof -
  have z: "\<And>i. iv_block zero_rng i = replicate 12 0"
    by (simp add: iv_block_def zero_rng_def map_replicate_const)
  show ?thesis
    unfolding encryptForAll_ivs [OF alice_bob] z by simp
qed

lemma counting_blocks_distinct: "distinct (map (iv_block counting_rng) [0..<2])"
proof -
  have n: "iv_block counting_rng 0 ! 0 = 0" "iv_block counting_rng 1 ! 0 = 12"
    by (simp_all add: iv_block_def counting_rng_def nth_upt)
  have "iv_block counting_rng 0 \<noteq> iv_block counting_rng 1"
  proof
    assume "iv_block counting_rng 0 = iv_block counting_rng 1"
    then have "iv_block counting_rng 0 ! 0 = iv_block counting_rng 1 ! 0" by simp
    then show False unfolding n by simp
  qed
  then show ?thesis by (simp add: numeral_2_eq_2)
qed

text \<open>
  Claim C4, amended: every \<open>encryptFor\<close> call on an established channel draws the next 12
  bytes of the random source and returns them, in base64, as the IV; no stored IV is
  used again. The IVs of N calls in a row are pairwise distinct exactly when the N
  blocks drawn are pairwise distinct.
\<close>

theorem iv_drawn_fresh:
  assumes "sharedKeys km peer = Some key"
  shows "ivs_of (fst (encryptForAll pf km g peer Ps))
      = map (\<lambda>i. Inr (arrayBufferToBase64 (iv_block g i))) [0..<length Ps]
    \<and> (\<forall>i. length (iv_block g i) = 12)
    \<and> (distinct (ivs_of (fst (encryptForAll pf km g peer Ps)))
        \<longleftrightarrow> distinct (map (iv_block g) [0..<length Ps]))"
proof -
  have "map (\<lambda>i. Inr (arrayBufferToBase64 (iv_block g i)) :: client_error + string) [0..<length Ps]
      = map (\<lambda>b. Inr (arrayBufferToBase64 b)) (map (iv_block g) [0..<length Ps])"
    by simp
  then show ?thesis
    unfolding encryptForAll_ivs [OF assms]
    by (simp only: distinct_map [of "\<lambda>b. Inr (arrayBufferToBase64 b)"] length_iv_block)
      (use inj_iv_encoding in \<open>auto intro: inj_on_subset\<close>)
qed

theorem iv_drawn_fresh_witness:
  "ivs_of (fst (encryptForAll toy_platform alice_keys counting_rng ''bob'' [[0x61], [0x62]]))
     = [Inr (arrayBufferToBase64 (iv_block counting_rng 0)),
        Inr (arrayBufferToBase64 (iv_block counting_rng 1))]
   \<and> distinct (ivs_of (fst (encryptForAll toy_platform alice_keys counting_rng ''bob''
                            [[0x61], [0x62]])))"
proof -
  let ?Ps = "[[0x61], [0x62]] :: jsstring list"
  have l: "length ?Ps = 2" by simp
  have m: "map (\<lambda>i. Inr (arrayBufferToBase64 (iv_block counting_rng i)) :: client_error + string)
             [0..<2]
      = [Inr (arrayBufferToBase64 (iv_block counting_rng 0)),
         Inr (arrayBufferToBase64 (iv_block counting_rng 1))]"
    by (simp add: upt_conv_Cons)
  note t = iv_drawn_fresh [OF alice_bob, of toy_platform counting_rng ?Ps, unfolded l]
  have a: "ivs_of (fst (encryptForAll toy_platform alice_keys counting_rng ''bob'' ?Ps))
      = [Inr (arrayBufferToBase64 (iv_block counting_rng 0)),
         Inr (arrayBufferToBase64 (iv_block counting_rng 1))]"
    using t [THEN conjunct1] unfolding m .
  have b: "distinct (ivs_of (fst (encryptForAll toy_platform alice_keys counting_rng ''bob'' ?Ps)))"
    using t [THEN conjunct2, THEN conjunct2] counting_blocks_distinct by (rule iffD2)
  show ?thesis
    using a b by (rule conjI)
qed

section \<open>The vault\<close>

lemma initialize_existing:
  assumes "localStorage w (STORAGE_KEY_PREFIX @ ''salt'') = Some s64" and "s64 \<noteq> []"
    and "base64ToArrayBuffer s64 = Inr s"
  shows "initialize pf w password False =
     (let key = deriveKeyFromPassword pf password s;
          w2 = w\<lparr>salt := Some s, masterKey := Some key, initialized := True\<rparr>;
          v = localStorage w (STORAGE_KEY_PREFIX @ ''verification'')
      in if truthy v \<and> isl (decryptFromStorage pf (the v) key)
         then (Inl InvalidPassword, w2\<lparr>masterKey := None, initialized := False\<rparr>)
         else (Inr (), w2))"
  using assms
  by (auto simp: initialize_def truthy_def Let_def split: sum.splits)

lemma initialize_new_ok: "fst (initialize pf w password True) = Inr ()"
  by (simp add: initialize_def Let_def split_beta)

lemma initialize_no_salt:
  assumes "\<not> truthy (localStorage w (STORAGE_KEY_PREFIX @ ''salt''))"
  shows "initialize pf w password False = (Inl NoStoredCredentials, w)"
  using assms by (simp add: initialize_def Let_def)

lemma initialize_bad_salt:
  assumes "truthy (localStorage w (STORAGE_KEY_PREFIX @ ''salt''))"
    and "base64ToArrayBuffer (the (localStorage w (STORAGE_KEY_PREFIX @ ''salt''))) = Inl e"
  shows "initialize pf w password False = (Inl e, w)"
  using assms by (simp add: initialize_def Let_def)

lemma base64ToArrayBuffer_error: "base64ToArrayBuffer x = Inl e \<Longrightarrow> e = InvalidCharacterError"
  by (auto simp: base64ToArrayBuffer_def split: option.splits)

text \<open>
  Claim C5: on a vault that holds a salt and a verification entry, \<open>initialize\<close> for an
  existing user with a password under which the verification entry does not decrypt
  fails with "Invalid password" and leaves no master key and the vault not
  initialized, so that \<open>getKeys\<close> then fails with "SecureStorage not initialized";
  localStorage is unchanged.
\<close>

theorem wrong_password_leaves_vault_locked:
  assumes "localStorage w (STORAGE_KEY_PREFIX @ ''salt'') = Some s64" and "s64 \<noteq> []"
    and "base64ToArrayBuffer s64 = Inr s"
    and "localStorage w (STORAGE_KEY_PREFIX @ ''verification'') = Some v" and "v \<noteq> []"
    and "isl (decryptFromStorage pf v (deriveKeyFromPassword pf password s))"
  shows "fst (initialize pf w password False) = Inl InvalidPassword
    \<and> masterKey (snd (initialize pf w password False)) = None
    \<and> \<not> isInitialized (snd (initialize pf w password False))
    \<and> getKeys pf (snd (initialize pf w password False)) = Inl NotInitialized
    \<and> localStorage (snd (initialize pf w password False)) = localStorage w"
  using assms(4-6)
  by (simp add: initialize_existing [OF assms(1-3)] truthy_def Let_def isInitialized_def
      getKeys_def)

text \<open>
  Claim C9, as stated, fails for the salt: \<open>lock\<close> assigns only \<open>masterKey\<close> and
  \<open>initialized\<close>, so after creating a vault and locking it the salt is still held.
\<close>

theorem lock_keeps_salt:
  "salt (lock (snd (initialize toy_platform fresh_vault (js_of_string ''pw'') True)))
     = Some (fst (generateSalt counting_rng))
   \<and> length (fst (generateSalt counting_rng)) = 32"
  by (simp add: initialize_def lock_def fresh_vault_def Let_def split_beta generateSalt_def
      getRandomValues_def)

text \<open>
  Claim C9, amended: after \<open>lock\<close> the master key is no longer held and the vault reports
  not initialized; the salt stays as it was, and every localStorage entry is untouched.
\<close>

theorem lock_frame:
  "masterKey (lock w) = None \<and> \<not> isInitialized (lock w) \<and> salt (lock w) = salt w
   \<and> localStorage (lock w) = localStorage w \<and> vault_random (lock w) = vault_random w"
  by (simp add: lock_def isInitialized_def)

text \<open>
  Claim C10: when localStorage holds a salt (a non-empty base64 text) and no
  verification entry, \<open>initialize\<close> for an existing user succeeds for every password and
  leaves the vault unlocked with the key derived from that password. \<open>initialize\<close>
  fails with "Invalid password" if and only if the user is an existing one, the salt
  is readable, and a non-empty verification entry is present and does not decrypt.
\<close>

theorem missing_marker_skips_check:
  "(localStorage w (STORAGE_KEY_PREFIX @ ''salt'') = Some s64 \<and> s64 \<noteq> []
      \<and> base64ToArrayBuffer s64 = Inr s
      \<and> localStorage w (STORAGE_KEY_PREFIX @ ''verification'') = None
    \<longrightarrow> initialize pf w password False =
          (Inr (), w\<lparr>salt := Some s,
                      masterKey := Some (deriveKeyFromPassword pf password s),
                      initialized := True\<rparr>))
   \<and> (fst (initialize pf w password isNewUser) = Inl InvalidPassword
      \<longleftrightarrow> \<not> isNewUser
          \<and> (\<exists>s64 s v. localStorage w (STORAGE_KEY_PREFIX @ ''salt'') = Some s64 \<and> s64 \<noteq> []
                \<and> base64ToArrayBuffer s64 = Inr s
                \<and> localStorage w (STORAGE_KEY_PREFIX @ ''verification'') = Some v \<and> v \<noteq> []
                \<and> isl (decryptFromStorage pf v (deriveKeyFromPassword pf password s))))"
proof (intro conjI impI)
  assume a: "localStorage w (STORAGE_KEY_PREFIX @ ''salt'') = Some s64 \<and> s64 \<noteq> []
      \<and> base64ToArrayBuffer s64 = Inr s
      \<and> localStorage w (STORAGE_KEY_PREFIX @ ''verification'') = None"
  then have a1: "localStorage w (STORAGE_KEY_PREFIX @ ''salt'') = Some s64"
    and a2: "s64 \<noteq> []" and a3: "base64ToArrayBuffer s64 = Inr s"
    and a4: "localStorage w (STORAGE_KEY_PREFIX @ ''verification'') = None"
    by blast+
  show "initialize pf w password False =
          (Inr (), w\<lparr>salt := Some s,
                      masterKey := Some (deriveKeyFromPassword pf password s),
                      initialized := True\<rparr>)"
    using a4 by (simp add: initialize_existing [OF a1 a2 a3] truthy_def Let_def)
next
  show "fst (initialize pf w password isNewUser) = Inl InvalidPassword
      \<longleftrightarrow> \<not> isNewUser
          \<and> (\<exists>s64 s v. localStorage w (STORAGE_KEY_PREFIX @ ''salt'') = Some s64 \<and> s64 \<noteq> []
                \<and> base64ToArrayBuffer s64 = Inr s
                \<and> localStorage w (STORAGE_KEY_PREFIX @ ''verification'') = Some v \<and> v \<noteq> []
                \<and> isl (decryptFromStorage pf v (deriveKeyFromPassword pf password s)))"
  proof (cases isNewUser)
    case True
    then show ?thesis by (simp add: initialize_new_ok)
  next
    case False
    show ?thesis
    proof (cases "truthy (localStorage w (STORAGE_KEY_PREFIX @ ''salt''))")
      case nt: False
      then show ?thesis
        using False by (auto simp: initialize_no_salt truthy_def)
    next
      case t: True
      then obtain s64 where s64: "localStorage w (STORAGE_KEY_PREFIX @ ''salt'') = Some s64"
        "s64 \<noteq> []"
        by (auto simp: truthy_def)
      show ?thesis
      proof (cases "base64ToArrayBuffer s64")
        case (Inl e)
        then have "base64ToArrayBuffer (the (localStorage w (STORAGE_KEY_PREFIX @ ''salt''))) = Inl e"
          using s64 by simp
        then have "initialize pf w password False = (Inl e, w)"
          by (rule initialize_bad_salt [OF t])
        moreover have "e = InvalidCharacterError"
          using Inl by (rule base64ToArrayBuffer_error)
        ultimately show ?thesis using False s64 Inl by auto
      next
        case (Inr s)
        show ?thesis
          using False s64 Inr
          by (auto simp: initialize_existing [OF s64 Inr] truthy_def Let_def)
      qed
    qed
  qed
qed

lemma btoa_chars: "c \<in> set (btoa bs) \<Longrightarrow> c = CHR ''='' \<or> (\<exists>n<64. c = b64_char n)"
  using sextets_lt by (auto simp: btoa_def)

lemma dquote_not_b64: "dquote \<notin> set (arrayBufferToBase64 bs)"
proof
  assume "dquote \<in> set (arrayBufferToBase64 bs)"
  then consider "dquote = CHR ''=''" | n where "n < 64" "dquote = b64_char n"
    using btoa_chars by (auto simp: arrayBufferToBase64_def)
  then show False
  proof cases
    case 1
    then show False by (simp add: dquote_def)
  next
    case 2
    have "b64_index (b64_char n) = Some n" using 2(1) by (rule b64_index_char)
    then have "b64_index dquote = Some n" by (simp only: 2(2))
    then show False by (simp add: b64_index_def dquote_def)
  qed
qed

lemma arrayBufferToBase64_nonempty: "bs \<noteq> [] \<Longrightarrow> arrayBufferToBase64 bs \<noteq> []"
  using length_sextets [of bs] by (auto simp: arrayBufferToBase64_def btoa_def)

lemma strip_prefix_append: "strip_prefix p (p @ r) = Some r"
  by (simp add: strip_prefix_def)

lemma takeWhile_to_dquote:
  "dquote \<notin> set a \<Longrightarrow> takeWhile (\<lambda>c. c \<noteq> dquote) (a @ dquote # r) = a"
  by (induction a) auto

lemma dropWhile_to_dquote:
  "dquote \<notin> set a \<Longrightarrow> dropWhile (\<lambda>c. c \<noteq> dquote) (a @ dquote # r) = dquote # r"
  by (induction a) auto

lemma parse_object2_json:
  assumes "dquote \<notin> set a" and "dquote \<notin> set b"
  shows "parse_object2 k1 k2 (json_object2 k1 k2 (a, b)) = Some (a, b)"
proof -
  let ?pre = "''{'' @ [dquote] @ k1 @ [dquote] @ '':'' @ [dquote]"
  let ?mid = "[dquote] @ '','' @ [dquote] @ k2 @ [dquote] @ '':'' @ [dquote]"
  have j: "json_object2 k1 k2 (a, b) = ?pre @ (a @ dquote # ('','' @ [dquote] @ k2 @ [dquote] @ '':'' @ [dquote] @ (b @ dquote # ''}'')))"
    by (simp add: json_object2_def)
  have d1: "dropWhile (\<lambda>c. c \<noteq> dquote) (a @ dquote # ('','' @ [dquote] @ k2 @ [dquote] @ '':'' @ [dquote] @ (b @ dquote # ''}'')))
      = ?mid @ (b @ dquote # ''}'')"
    using dropWhile_to_dquote [OF assms(1)] by simp
  show ?thesis
    unfolding parse_object2_def j strip_prefix_append option.case d1
      takeWhile_to_dquote [OF assms(1)] takeWhile_to_dquote [OF assms(2)]
      dropWhile_to_dquote [OF assms(2)]
    by simp
qed

lemma toy_stored_decrypt:
  "decryptFromStorage toy_platform (fst (encryptForStorage toy_platform g data key)) key'
     = (case toy_decrypt key' (iv_block g 0) (toy_encrypt key (iv_block g 0) (TextEncoder_encode data)) of
          None \<Rightarrow> Inl OperationError
        | Some d \<Rightarrow> Inr (TextDecoder_decode d))"
  by (simp add: decryptFromStorage_def encryptForStorage_def getRandomValues_def iv_block_def
      toy_platform_def Let_def parse_object2_json dquote_not_b64 base64_round_trip)

lemma toy_stored_nonempty: "fst (encryptForStorage toy_platform g data key) \<noteq> []"
  by (simp add: encryptForStorage_def toy_platform_def json_object2_def split_beta Let_def)

lemma created_vault_storage:
  "localStorage (lock created_vault) (STORAGE_KEY_PREFIX @ ''salt'')
     = Some (arrayBufferToBase64 created_salt)"
  "localStorage (lock created_vault) (STORAGE_KEY_PREFIX @ ''verification'')
     = Some (fst (encryptForStorage toy_platform (snd (generateSalt counting_rng))
                   (js_of_string ''verification_token'')
                   (deriveKeyFromPassword toy_platform (js_of_string ''pw'') created_salt)))"
  by (simp_all add: created_vault_def created_salt_def initialize_def lock_def fresh_vault_def
      Let_def split_beta)

lemma created_salt_nonempty: "created_salt \<noteq> []"
  by (simp add: created_salt_def generateSalt_def getRandomValues_def)

lemma toy_keys_differ:
  "deriveKeyFromPassword toy_platform (js_of_string ''px'') s
     \<noteq> deriveKeyFromPassword toy_platform (js_of_string ''pw'') s"
  by (simp add: deriveKeyFromPassword_def toy_platform_def toy_pbkdf2_def checksum_def
      TextEncoder_encode_def js_of_string_def utf8_encode_scalar_def is_lead_surrogate_def
      is_trail_surrogate_def)

lemma wrong_password_rejected:
  "isl (decryptFromStorage toy_platform
          (fst (encryptForStorage toy_platform g data
                  (deriveKeyFromPassword toy_platform (js_of_string ''pw'') s)))
          (deriveKeyFromPassword toy_platform (js_of_string ''px'') s))"
  by (simp add: toy_stored_decrypt toy_wrong_key [OF toy_keys_differ])

theorem wrong_password_leaves_vault_locked_witness:
  "fst (initialize toy_platform (lock created_vault) (js_of_string ''px'') False)
     = Inl InvalidPassword
   \<and> masterKey (snd (initialize toy_platform (lock created_vault) (js_of_string ''px'') False))
     = None
   \<and> getKeys toy_platform
       (snd (initialize toy_platform (lock created_vault) (js_of_string ''px'') False))
     = Inl NotInitialized"
  using wrong_password_leaves_vault_locked
    [OF created_vault_storage(1) arrayBufferToBase64_nonempty [OF created_salt_nonempty]
      base64_round_trip created_vault_storage(2) toy_stored_nonempty wrong_password_rejected]
  by simp

theorem missing_marker_skips_check_witness:
  "initialize toy_platform salt_only_vault (js_of_string ''anything'') False
     = (Inr (), salt_only_vault\<lparr>salt := Some [1, 2, 3],
          masterKey := Some (deriveKeyFromPassword toy_platform (js_of_string ''anything'') [1, 2, 3]),
          initialized := True\<rparr>)
   \<and> fst (initialize toy_platform (lock created_vault) (js_of_string ''px'') False)
     = Inl InvalidPassword"
proof -
  have a: "localStorage salt_only_vault (STORAGE_KEY_PREFIX @ ''salt'')
             = Some (arrayBufferToBase64 [1, 2, 3])
           \<and> arrayBufferToBase64 [1, 2, 3] \<noteq> []
           \<and> base64ToArrayBuffer (arrayBufferToBase64 [1, 2, 3]) = Inr [1, 2, 3]
           \<and> localStorage salt_only_vault (STORAGE_KEY_PREFIX @ ''verification'') = None"
    by (simp add: salt_only_vault_def base64_round_trip arrayBufferToBase64_nonempty
        STORAGE_KEY_PREFIX_def)
  have b: "\<exists>s64 s v. localStorage (lock created_vault) (STORAGE_KEY_PREFIX @ ''salt'') = Some s64
             \<and> s64 \<noteq> [] \<and> base64ToArrayBuffer s64 = Inr s
             \<and> localStorage (lock created_vault) (STORAGE_KEY_PREFIX @ ''verification'') = Some v
             \<and> v \<noteq> []
             \<and> isl (decryptFromStorage toy_platform v
                      (deriveKeyFromPassword toy_platform (js_of_string ''px'') s))"
    using created_vault_storage arrayBufferToBase64_nonempty [OF created_salt_nonempty]
      base64_round_trip toy_stored_nonempty wrong_password_rejected
    by blast
  show ?thesis
    using missing_marker_skips_check [of salt_only_vault "arrayBufferToBase64 [1, 2, 3]"
        "[1, 2, 3]" toy_platform "js_of_string ''anything''" False]
      missing_marker_skips_check [of "lock created_vault" _ _ toy_platform
        "js_of_string ''px''" False]
      a b
    by blast
qed

section \<open>The outbound queue\<close>

lemma flushMessageQueue_connected:
  "isConnected c \<Longrightarrow> socket c \<Longrightarrow>
     flushMessageQueue c
       = c\<lparr>messageQueue := [], wire := wire c @ map Encrypted_message (messageQueue c)\<rparr>"
proof (induction "messageQueue c" arbitrary: c)
  case Nil
  then have e: "messageQueue c = []" by simp
  have "flushMessageQueue c = c"
    by (subst flushMessageQueue.simps) (simp add: e)
  moreover have "c\<lparr>messageQueue := [], wire := wire c @ map Encrypted_message (messageQueue c)\<rparr> = c"
    using e by (cases c) simp
  ultimately show ?case by simp
next
  case (Cons m rest)
  let ?c' = "c\<lparr>messageQueue := rest, wire := wire c @ [Encrypted_message m]\<rparr>"
  have q: "messageQueue c = m # rest" using Cons.hyps(2) by simp
  have "flushMessageQueue c = flushMessageQueue ?c'"
    using Cons.prems q by (subst flushMessageQueue.simps) simp
  also have "\<dots> = ?c'\<lparr>messageQueue := [], wire := wire ?c' @ map Encrypted_message (messageQueue ?c')\<rparr>"
    using Cons.prems by (intro Cons.hyps(1)) simp_all
  also have "\<dots> = c\<lparr>messageQueue := [], wire := wire c @ map Encrypted_message (messageQueue c)\<rparr>"
    by (simp add: q)
  finally show ?case .
qed

lemma flushMessageQueue_idle:
  "\<not> (isConnected c \<and> socket c) \<Longrightarrow> flushMessageQueue c = c"
  by (subst flushMessageQueue.simps) auto

lemma on_connect_flushes:
  "on_connect (connect c)
     = c\<lparr>socket := True, isConnected := True, messageQueue := [],
         wire := wire c @ map Encrypted_message (messageQueue c)\<rparr>"
  by (simp add: on_connect_def connect_def flushMessageQueue_connected)

lemma sendMessage_offline:
  assumes "\<not> isConnected c" and "sharedKeys (keyManager c) recipient = Some key"
  shows "sendMessage pf c recipient content chat mid now =
     (Inr mid,
      c\<lparr>client_random := (client_random c)\<lparr>drawn := drawn (client_random c) + 12\<rparr>,
        messageQueue := messageQueue c @
          [\<lparr>qm_recipientId = recipient, qm_chatId = chat,
            qm_ciphertext = arrayBufferToBase64
              (aes_gcm_encrypt pf key (iv_block (client_random c) 0) (TextEncoder_encode content)),
            qm_iv = arrayBufferToBase64 (iv_block (client_random c) 0),
            qm_timestamp = now, qm_messageId = mid\<rparr>]\<rparr>)"
  using assms by (simp add: sendMessage_def encryptFor_channel [OF assms(2)] Let_def)

lemma sendMessage_no_channel:
  assumes "sharedKeys (keyManager c) recipient = None"
  shows "sendMessage pf c recipient content chat mid now = (Inl NoChannelWithRecipient, c)"
  using assms by (simp add: sendMessage_def encryptFor_def)

lemma queued_entries_Nil: "queued_entries pf km g [] = []"
  by (simp add: queued_entries_def)

lemma queued_entry_shift:
  "queued_entry pf km (g\<lparr>drawn := drawn g + 12\<rparr>) i r = queued_entry pf km g (Suc i) r"
  by (simp add: queued_entry_def iv_block_shift split: option.split)

lemma queued_entries_Cons:
  "queued_entries pf km g (r # rs)
     = queued_entry pf km g 0 r # queued_entries pf km (g\<lparr>drawn := drawn g + 12\<rparr>) rs"
proof -
  have "[0..<length (r # rs)] = 0 # map Suc [0..<length rs]"
    by (simp add: upt_conv_Cons map_Suc_upt del: upt_Suc)
  then show ?thesis
    by (simp add: queued_entries_def queued_entry_shift comp_def del: upt_Suc)
qed

lemma send_sequence_offline:
  assumes "\<not> isConnected c"
  shows "fst (send_sequence pf c reqs) = map (send_result c) reqs
    \<and> wire (snd (send_sequence pf c reqs)) = wire c
    \<and> isConnected (snd (send_sequence pf c reqs)) = isConnected c
    \<and> socket (snd (send_sequence pf c reqs)) = socket c
    \<and> keyManager (snd (send_sequence pf c reqs)) = keyManager c
    \<and> messageQueue (snd (send_sequence pf c reqs))
        = messageQueue c
          @ queued_entries pf (keyManager c) (client_random c) (filter (has_channel_for c) reqs)"
  using assms
proof (induction reqs arbitrary: c)
  case Nil
  then show ?case by (simp add: queued_entries_Nil)
next
  case (Cons r rs)
  show ?case
  proof (cases "sharedKeys (keyManager c) (sr_recipientId r)")
    case None
    then have nh: "\<not> has_channel_for c r"
      by (simp add: has_channel_for_def SecureSocketClient_hasChannel_def hasChannel_def)
    have s: "sendMessage pf c (sr_recipientId r) (sr_content r) (sr_chatId r) (sr_messageId r)
               (sr_now r) = (Inl NoChannelWithRecipient, c)"
      using None by (rule sendMessage_no_channel)
    have u: "send_sequence pf c (r # rs)
        = (Inl NoChannelWithRecipient # fst (send_sequence pf c rs), snd (send_sequence pf c rs))"
      by (simp add: s split_beta)
    show ?thesis
      unfolding u using Cons.IH [OF Cons.prems] nh by (simp add: send_result_def)
  next
    case (Some key)
    then have h: "has_channel_for c r"
      by (simp add: has_channel_for_def SecureSocketClient_hasChannel_def hasChannel_def)
    define e where "e = queued_entry pf (keyManager c) (client_random c) 0 r"
    define c' where "c' = c\<lparr>client_random := (client_random c)\<lparr>drawn := drawn (client_random c) + 12\<rparr>,
          messageQueue := messageQueue c @ [e]\<rparr>"
    have s: "sendMessage pf c (sr_recipientId r) (sr_content r) (sr_chatId r) (sr_messageId r)
               (sr_now r) = (Inr (sr_messageId r), c')"
      unfolding c'_def e_def queued_entry_def Some option.case
      using Cons.prems Some by (rule sendMessage_offline)
    have c'1: "\<not> isConnected c'" using Cons.prems by (simp add: c'_def)
    have same: "has_channel_for c' = has_channel_for c" "send_result c' = send_result c"
      by (rule ext, simp add: c'_def has_channel_for_def send_result_def
          SecureSocketClient_hasChannel_def)+
    note ih = Cons.IH [OF c'1, unfolded same]
    have u: "send_sequence pf c (r # rs)
        = (Inr (sr_messageId r) # fst (send_sequence pf c' rs), snd (send_sequence pf c' rs))"
      by (simp add: s split_beta)
    have q: "messageQueue (snd (send_sequence pf c (r # rs)))
        = messageQueue c
          @ queued_entries pf (keyManager c) (client_random c) (filter (has_channel_for c) (r # rs))"
      unfolding u snd_conv using ih h
      by (simp add: queued_entries_Cons) (simp add: c'_def e_def)
    have rest: "fst (send_sequence pf c (r # rs)) = map (send_result c) (r # rs)"
      "wire (snd (send_sequence pf c (r # rs))) = wire c"
      "isConnected (snd (send_sequence pf c (r # rs))) = isConnected c"
      "socket (snd (send_sequence pf c (r # rs))) = socket c"
      "keyManager (snd (send_sequence pf c (r # rs))) = keyManager c"
      unfolding u using ih h by (simp_all add: c'_def send_result_def)
    show ?thesis using rest q by blast
  qed
qed

text \<open>
  Claim C6, as stated for every sequence of calls, fails: a \<open>sendMessage\<close> call made while
  disconnected for a recipient without a channel throws in \<open>encryptFor\<close>, before the
  queue is touched; it appends no entry and the next "connect" event sends nothing.
\<close>

theorem offline_send_without_channel:
  "fst (send_sequence toy_platform offline_client send_to_carol) = [Inl NoChannelWithRecipient]
   \<and> messageQueue (snd (send_sequence toy_platform offline_client send_to_carol)) = []
   \<and> wire (on_connect (connect (snd (send_sequence toy_platform offline_client send_to_carol))))
     = []"
proof -
  have k: "sharedKeys (keyManager offline_client) ''carol'' = None"
    by (simp add: offline_client_def alice_keys_def)
  have s: "send_sequence toy_platform offline_client send_to_carol
      = ([Inl NoChannelWithRecipient], offline_client)"
    by (simp add: send_to_carol_def sendMessage_no_channel [OF k])
  show ?thesis
    unfolding s by (simp add: on_connect_flushes) (simp add: offline_client_def)
qed

text \<open>
  Claim C6, amended: while the client is disconnected, a \<open>sendMessage\<close> call for a
  recipient with a channel returns its message id, sends nothing and appends exactly one
  entry to the queue: the envelope with the call's recipient, chat, message id and
  timestamp, whose IV is the next block drawn from the random source and whose ciphertext
  is the call's content encrypted under the recipient's key with that IV. A call for a
  recipient without a channel fails with "No secure channel established with
  recipient", appends nothing and draws nothing. The queue after the calls is the queue
  before followed by the entries of the successful calls in call order, and the next
  "connect" event sends exactly the queued entries, each once, in queue order, and
  leaves the queue empty.
\<close>

theorem offline_queue_fifo:
  assumes "\<not> isConnected c"
  shows "fst (send_sequence pf c reqs) = map (send_result c) reqs
    \<and> wire (snd (send_sequence pf c reqs)) = wire c
    \<and> messageQueue (snd (send_sequence pf c reqs))
        = messageQueue c
          @ queued_entries pf (keyManager c) (client_random c) (filter (has_channel_for c) reqs)
    \<and> length (messageQueue (snd (send_sequence pf c reqs)))
        = length (messageQueue c) + length (filter (has_channel_for c) reqs)
    \<and> wire (on_connect (connect (snd (send_sequence pf c reqs))))
        = wire c @ map Encrypted_message (messageQueue (snd (send_sequence pf c reqs)))
    \<and> messageQueue (on_connect (connect (snd (send_sequence pf c reqs)))) = []"
  using send_sequence_offline [OF assms, of pf reqs]
  by (simp add: on_connect_flushes) (simp add: queued_entries_def)

lemma offline_has_bob: "SecureSocketClient_hasChannel offline_client ''bob''"
  by (simp add: SecureSocketClient_hasChannel_def hasChannel_def offline_client_def alice_keys_def)

theorem offline_queue_fifo_witness:
  "fst (send_sequence toy_platform offline_client three_sends)
     = [Inr ''id-1'', Inr ''id-2'', Inr ''id-3'']
   \<and> messageQueue (snd (send_sequence toy_platform offline_client three_sends))
     = [queued_entry toy_platform alice_keys counting_rng 0 (three_sends ! 0),
        queued_entry toy_platform alice_keys counting_rng 1 (three_sends ! 1),
        queued_entry toy_platform alice_keys counting_rng 2 (three_sends ! 2)]
   \<and> wire (on_connect (connect (snd (send_sequence toy_platform offline_client three_sends))))
     = map Encrypted_message
         [queued_entry toy_platform alice_keys counting_rng 0 (three_sends ! 0),
          queued_entry toy_platform alice_keys counting_rng 1 (three_sends ! 1),
          queued_entry toy_platform alice_keys counting_rng 2 (three_sends ! 2)]
   \<and> messageQueue (on_connect (connect (snd (send_sequence toy_platform offline_client three_sends))))
     = []"
proof -
  have a: "\<not> isConnected offline_client" by (simp add: offline_client_def)
  have f: "filter (has_channel_for offline_client) three_sends = three_sends"
    using offline_has_bob by (simp add: three_sends_def has_channel_for_def)
  have r: "map (send_result offline_client) three_sends = [Inr ''id-1'', Inr ''id-2'', Inr ''id-3'']"
    using offline_has_bob by (simp add: three_sends_def send_result_def has_channel_for_def)
  have l: "length three_sends = 3" by (simp add: three_sends_def)
  have e: "queued_entries toy_platform alice_keys counting_rng three_sends
      = [queued_entry toy_platform alice_keys counting_rng 0 (three_sends ! 0),
         queued_entry toy_platform alice_keys counting_rng 1 (three_sends ! 1),
         queued_entry toy_platform alice_keys counting_rng 2 (three_sends ! 2)]"
    unfolding queued_entries_def l by (simp add: upt_conv_Cons numeral_2_eq_2)
  have o: "messageQueue offline_client = []" "wire offline_client = []"
    "keyManager offline_client = alice_keys" "client_random offline_client = counting_rng"
    by (simp_all add: offline_client_def)
  show ?thesis
    using offline_queue_fifo [OF a, of toy_platform three_sends]
    unfolding f r o e by simp
qed

lemma ChatContext_sendMessage_late:
  assumes "\<not> SecureSocketClient_hasChannel c recipient"
    and "\<forall>e\<in>set responses. 1000 \<le> pk_established e"
  shows "ChatContext_sendMessage pf c responses recipient content chat mid now
     = (Inl NoChannelWithRecipient, requestPublicKey c recipient)"
proof -
  have f: "filter (\<lambda>e. pk_established e < 1000) responses = []"
    using assms(2) by (auto simp: filter_empty_conv)
  have k: "sharedKeys (keyManager (requestPublicKey c recipient)) recipient = None"
    using assms(1)
    by (simp add: requestPublicKey_def emit_def SecureSocketClient_hasChannel_def hasChannel_def)
  show ?thesis
    using assms(1)
    by (simp add: ChatContext_sendMessage_def wait_1000_def f sendMessage_no_channel [OF k])
qed

lemma ChatContext_sendMessage_in_time:
  assumes "\<not> SecureSocketClient_hasChannel c recipient"
    and "pk_established e < 1000"
    and "establishChannel pf (keyManager c) (pk_userId e) (pk_publicKey e) = Inr km"
  shows "ChatContext_sendMessage pf c [e] recipient content chat mid now
     = sendMessage pf ((requestPublicKey c recipient)\<lparr>keyManager := km\<rparr>) recipient content
         chat mid now"
  using assms
  by (simp add: ChatContext_sendMessage_def wait_1000_def onPublicKey_def
      SecureSocketClient_establishChannel_def requestPublicKey_def emit_def)

lemma response_handled_after_timer:
  "fst (ChatContext_sendMessage toy_platform online_client
          [\<lparr>pk_arrival = 998, pk_established = 1002, pk_userId = ''carol'',
            pk_publicKey = ''AQID''\<rparr>]
          ''carol'' (js_of_string ''hi'') ''c2'' ''id-9'' 5) = Inl NoChannelWithRecipient"
proof -
  have o: "online_client = offline_client\<lparr>socket := True, isConnected := True\<rparr>"
    by (simp add: online_client_def on_connect_flushes) (simp add: offline_client_def)
  have "\<not> SecureSocketClient_hasChannel online_client ''carol''"
    by (simp add: o SecureSocketClient_hasChannel_def hasChannel_def offline_client_def
        alice_keys_def)
  then show ?thesis
    by (subst ChatContext_sendMessage_late) simp_all
qed

text \<open>
  Claim C7 does not hold of the code: the wait is a fixed second. When the key response
  arrives after 1500 ms, and also when the client is offline so that the request is
  never sent, the send goes on without a channel and fails with "No secure channel
  established with recipient"; nothing is queued and no message is sent.
\<close>

theorem fixed_wait_then_send_fails:
  "fst (ChatContext_sendMessage toy_platform online_client [late_response] ''carol''
          (js_of_string ''hi'') ''c2'' ''id-9'' 5) = Inl NoChannelWithRecipient
   \<and> messageQueue (snd (ChatContext_sendMessage toy_platform online_client [late_response]
          ''carol'' (js_of_string ''hi'') ''c2'' ''id-9'' 5)) = []
   \<and> wire (snd (ChatContext_sendMessage toy_platform online_client [late_response]
          ''carol'' (js_of_string ''hi'') ''c2'' ''id-9'' 5)) = [Request_public_key ''carol'']
   \<and> fst (ChatContext_sendMessage toy_platform offline_client [] ''carol''
          (js_of_string ''hi'') ''c2'' ''id-9'' 5) = Inl NoChannelWithRecipient
   \<and> messageQueue (snd (ChatContext_sendMessage toy_platform offline_client []
          ''carol'' (js_of_string ''hi'') ''c2'' ''id-9'' 5)) = []
   \<and> wire (snd (ChatContext_sendMessage toy_platform offline_client []
          ''carol'' (js_of_string ''hi'') ''c2'' ''id-9'' 5)) = []"
proof -
  have o: "online_client = offline_client\<lparr>socket := True, isConnected := True\<rparr>"
    by (simp add: online_client_def on_connect_flushes) (simp add: offline_client_def)
  have a: "\<not> SecureSocketClient_hasChannel online_client ''carol''"
    "\<not> SecureSocketClient_hasChannel offline_client ''carol''"
    by (simp_all add: o SecureSocketClient_hasChannel_def hasChannel_def offline_client_def
        alice_keys_def)
  have b: "\<forall>e\<in>set [late_response]. 1000 \<le> pk_established e"
    by (simp add: late_response_def)
  show ?thesis
    unfolding ChatContext_sendMessage_late [OF a(1) b]
      ChatContext_sendMessage_late [OF a(2), of "[]", simplified]
    by (simp add: requestPublicKey_def emit_def o) (simp add: offline_client_def)
qed

end
